theory Spec2Isabelle
  imports Main "HOL-Library.AList" "HOL-Library.Sublist"
begin

section \<open>Data model\<close>

text \<open>
  The program is the HTTP bridge between a model provider and an MCP tool server
  (class \<open>MCPClient\<close>, the session helpers and the request handlers). Everything the
  code awaits from outside (the provider SDKs, the MCP SDK client, \<open>fetch\<close>, the clock)
  is an oracle of the environment; every such call is written to a trace, and an oracle
  answers from the trace so far and the arguments of the call.
\<close>

text \<open>Opaque JSON documents (tool inputs, schemas, tool results) are kept as text.\<close>

type_synonym json = string

text \<open>JavaScript values as far as the handlers build or test them.\<close>

datatype jsval = JUndefined | JNum int | JStr string | JBool bool | JArr "jsval list"

text \<open>A thrown value: the \<open>status\<close> and \<open>code\<close> properties the chat handler inspects,
  and the message.\<close>

datatype js_error = JsError (err_status: jsval) (err_code: jsval) (err_message: string)

definition new_Error :: "string \<Rightarrow> js_error" where
  "new_Error msg = JsError JUndefined JUndefined msg"

datatype ModelProvider = anthropic | openai | ollama

text \<open>A content block of an Anthropic response: \<open>type\<close> is \<open>text\<close>, \<open>tool_use\<close>
  (id, name, input) or anything else.\<close>

datatype content_block =
    TextBlock string
  | ToolUseBlock string string json
  | OtherBlock string

text \<open>An OpenAI tool call \<open>{id, function: {name, arguments}}\<close>; the arguments are a JSON
  string.\<close>

datatype oa_tool_call = OAToolCall (oa_id: string) (oa_name: string) (oa_arguments: string)

datatype oa_message =
  OAMessage (oa_content: "string option") (oa_tool_calls: "oa_tool_call list option")

text \<open>An Ollama tool call: the id is read through a cast and may be absent; the arguments
  are a JSON string or an object.\<close>

datatype ol_args = ArgsString string | ArgsObject json

datatype ol_tool_call =
  OLToolCall (ol_id: "string option") (ol_name: string) (ol_arguments: ol_args)

datatype ol_message =
  OLMessage (ol_content: string) (ol_tool_calls: "ol_tool_call list option")

text \<open>The entries of \<open>conversationHistory\<close> (an \<open>any[]\<close> in the source), one constructor
  per object literal the code pushes.\<close>

datatype message =
    UserText string
  | AnthropicAssistant "content_block list"
  | AnthropicToolResult string json
  | OpenAIAssistant "string option" "oa_tool_call list option"
  | OllamaAssistant string "ol_tool_call list option"
  | ToolMessage json string

text \<open>Tool descriptors: as the MCP server lists them, and in the two provider shapes.\<close>

datatype mcp_tool =
  McpTool (tool_name: string) (tool_description: "string option") (inputSchema: json)

datatype tool =
    AnthropicTool string "string option" json
  | FunctionTool string "string option" json

datatype level = LOG | WARN | ERROR

text \<open>The trace of effects. A client is named by the number of its MCP \<open>Client\<close> object.
  A tool call is recorded with its outcome; console output with its level and the
  literal text its first argument starts with (for a logged error, its message).\<close>

datatype event =
    Connect nat string
  | ListTools nat
  | ModelCall ModelProvider "message list"
  | CallTool nat string json "js_error + json"
  | FetchDelete string string
  | Close nat
  | DateRead nat
  | Console level string

record env =
  anthropic_messages_create ::
    "event list \<Rightarrow> message list \<Rightarrow> tool list \<Rightarrow> js_error + content_block list"
  openai_chat_completions_create ::
    "event list \<Rightarrow> message list \<Rightarrow> tool list option \<Rightarrow> js_error + oa_message list"
  ollama_chat ::
    "event list \<Rightarrow> message list \<Rightarrow> tool list option \<Rightarrow> js_error + ol_message"
  mcp_connect :: "event list \<Rightarrow> nat \<Rightarrow> string \<Rightarrow> js_error + string option"
  mcp_listTools :: "event list \<Rightarrow> nat \<Rightarrow> js_error + mcp_tool list"
  mcp_callTool :: "event list \<Rightarrow> nat \<Rightarrow> string \<Rightarrow> json \<Rightarrow> js_error + json"
  mcp_close :: "event list \<Rightarrow> nat \<Rightarrow> js_error option"
  fetch_DELETE :: "event list \<Rightarrow> string \<Rightarrow> string \<Rightarrow> js_error + nat"
  JSON_parse :: "string \<Rightarrow> js_error + json"
  Date_now :: "event list \<Rightarrow> nat"

text \<open>
  Class \<open>MCPClient\<close>. \<open>mcp\<close> is the number of the owned \<open>Client\<close> object; a provider
  member is \<open>None\<close> for \<open>null\<close>; \<open>transport\<close> is \<open>None\<close> for \<open>null\<close> and else holds
  the transport's \<open>sessionId\<close> property.
\<close>

record MCPClient =
  mcp :: nat
  anthropic_sdk :: "unit option"
  openai_sdk :: "unit option"
  ollama_sdk :: "unit option"
  transport :: "string option option"
  tools :: "tool list"
  apiToken :: string
  conversationHistory :: "message list"
  sessionId :: "string option"
  provider :: ModelProvider

definition new_MCPClient :: "nat \<Rightarrow> string \<Rightarrow> ModelProvider \<Rightarrow> MCPClient" where
  "new_MCPClient n token p =
     \<lparr> mcp = n,
       anthropic_sdk = (if p = anthropic then Some () else None),
       openai_sdk = (if p = anthropic then None else if p = openai then Some () else None),
       ollama_sdk =
         (if p = anthropic then None else if p = openai then None
          else if p = ollama then Some () else None),
       transport = None,
       tools = [],
       apiToken = token,
       conversationHistory = [],
       sessionId = None,
       provider = p \<rparr>"

definition push :: "MCPClient \<Rightarrow> message \<Rightarrow> MCPClient" where
  "push c m = c\<lparr>conversationHistory := conversationHistory c @ [m]\<rparr>"

text \<open>\<open>x || ""\<close> on a string that may be null.\<close>

definition or_empty :: "string option \<Rightarrow> string" where
  "or_empty x = (case x of None \<Rightarrow> [] | Some s \<Rightarrow> s)"

text \<open>\<open>this.tools.length > 0 ? this.tools : undefined\<close>\<close>

definition tools_arg :: "MCPClient \<Rightarrow> tool list option" where
  "tools_arg c = (if length (tools c) > 0 then Some (tools c) else None)"

section \<open>The tool-call round\<close>

type_synonym 'a outcome = "event list \<times> MCPClient \<times> 'a"

fun append_texts :: "string \<Rightarrow> content_block list \<Rightarrow> string" where
  "append_texts acc [] = acc"
| "append_texts acc (TextBlock s # bs) = append_texts (acc @ s) bs"
| "append_texts acc (ToolUseBlock i n inp # bs) = append_texts acc bs"
| "append_texts acc (OtherBlock k # bs) = append_texts acc bs"

text \<open>The loop over \<open>response.content\<close> of \<open>processQueryWithAnthropic\<close>; the third
  component carries \<open>assistantResponse\<close>.\<close>

fun anthropic_blocks ::
  "env \<Rightarrow> content_block list \<Rightarrow> event list \<Rightarrow> MCPClient \<Rightarrow> string
     \<Rightarrow> (js_error + string) outcome" where
  "anthropic_blocks E [] t c acc = (t, c, Inr acc)"
| "anthropic_blocks E (TextBlock s # bs) t c acc = anthropic_blocks E bs t c (acc @ s)"
| "anthropic_blocks E (OtherBlock k # bs) t c acc = anthropic_blocks E bs t c acc"
| "anthropic_blocks E (ToolUseBlock i toolName toolArgs # bs) t c acc =
     (let r = mcp_callTool E t (mcp c) toolName toolArgs;
          t1 = t @ [CallTool (mcp c) toolName toolArgs r]
      in case r of
           Inl e \<Rightarrow> (t1, c, Inl e)
         | Inr res \<Rightarrow>
             (let c1 = push c (AnthropicToolResult i res);
                  f = anthropic_messages_create E t1 (conversationHistory c1) (tools c1);
                  t2 = t1 @ [ModelCall anthropic (conversationHistory c1)]
              in case f of
                   Inl e \<Rightarrow> (t2, c1, Inl e)
                 | Inr followup \<Rightarrow>
                     anthropic_blocks E bs t2 (push c1 (AnthropicAssistant followup))
                       (append_texts acc followup)))"

definition processQueryWithAnthropic ::
  "env \<Rightarrow> event list \<Rightarrow> MCPClient \<Rightarrow> string \<Rightarrow> (js_error + string) outcome" where
  "processQueryWithAnthropic E t c query =
     (case anthropic_sdk c of
        None \<Rightarrow> (t, c, Inl (new_Error ''Anthropic client not initialized''))
      | Some u \<Rightarrow>
          (let c1 = push c (UserText query);
               messages = conversationHistory c1;
               r = anthropic_messages_create E t messages (tools c1);
               t1 = t @ [ModelCall anthropic messages]
           in case r of
                Inl e \<Rightarrow> (t1, c1, Inl e)
              | Inr response \<Rightarrow>
                  anthropic_blocks E response t1 (push c1 (AnthropicAssistant response)) []))"

text \<open>The loop over \<open>message.tool_calls\<close> of \<open>processQueryWithOpenAI\<close>.\<close>

fun openai_tool_calls ::
  "env \<Rightarrow> oa_tool_call list \<Rightarrow> event list \<Rightarrow> MCPClient \<Rightarrow> (js_error option) outcome" where
  "openai_tool_calls E [] t c = (t, c, None)"
| "openai_tool_calls E (toolCall # tcs) t c =
     (case JSON_parse E (oa_arguments toolCall) of
        Inl e \<Rightarrow> (t, c, Some e)
      | Inr toolArgs \<Rightarrow>
          (let r = mcp_callTool E t (mcp c) (oa_name toolCall) toolArgs;
               t1 = t @ [CallTool (mcp c) (oa_name toolCall) toolArgs r]
           in case r of
                Inl e \<Rightarrow> (t1, c, Some e)
              | Inr res \<Rightarrow>
                  openai_tool_calls E tcs t1 (push c (ToolMessage res (oa_id toolCall)))))"

text \<open>\<open>response.choices[0].message\<close>: reading \<open>message\<close> of \<open>undefined\<close> throws.\<close>

definition first_choice :: "oa_message list \<Rightarrow> js_error + oa_message" where
  "first_choice choices =
     (case choices of
        [] \<Rightarrow> Inl (new_Error ''Cannot read properties of undefined'')
      | m # ms \<Rightarrow> Inr m)"

definition processQueryWithOpenAI ::
  "env \<Rightarrow> event list \<Rightarrow> MCPClient \<Rightarrow> string \<Rightarrow> (js_error + string) outcome" where
  "processQueryWithOpenAI E t c query =
     (case openai_sdk c of
        None \<Rightarrow> (t, c, Inl (new_Error ''OpenAI client not initialized''))
      | Some u \<Rightarrow>
          (let c1 = push c (UserText query);
               r = openai_chat_completions_create E t (conversationHistory c1) (tools_arg c1);
               t1 = t @ [ModelCall openai (conversationHistory c1)]
           in case r of
                Inl e \<Rightarrow> (t1, c1, Inl e)
              | Inr response \<Rightarrow>
                 (case first_choice response of
                    Inl e \<Rightarrow> (t1, c1, Inl e)
                  | Inr msg \<Rightarrow>
                     (let assistantResponse = or_empty (oa_content msg);
                          c2 = push c1 (OpenAIAssistant (oa_content msg) (oa_tool_calls msg))
                      in case oa_tool_calls msg of
                           None \<Rightarrow> (t1, c2, Inr assistantResponse)
                         | Some tcs \<Rightarrow>
                            if length tcs > 0 then
                              (case openai_tool_calls E tcs t1 c2 of
                                 (t2, c3, Some e) \<Rightarrow> (t2, c3, Inl e)
                               | (t2, c3, None) \<Rightarrow>
                                  (let f = openai_chat_completions_create E t2
                                             (conversationHistory c3) (tools_arg c3);
                                       t3 = t2 @ [ModelCall openai (conversationHistory c3)]
                                   in case f of
                                        Inl e \<Rightarrow> (t3, c3, Inl e)
                                      | Inr followupResponse \<Rightarrow>
                                         (case first_choice followupResponse of
                                            Inl e \<Rightarrow> (t3, c3, Inl e)
                                          | Inr followupMessage \<Rightarrow>
                                              (t3,
                                               push c3 (OpenAIAssistant
                                                 (oa_content followupMessage)
                                                 (oa_tool_calls followupMessage)),
                                               Inr (or_empty (oa_content followupMessage))))))
                            else (t1, c2, Inr assistantResponse)))))"

text \<open>The loop over \<open>message.tool_calls\<close> of \<open>processQueryWithOllama\<close>. The arguments
  are parsed only when they are a string; the correlation id is \<open>id || function.name\<close>.\<close>

definition ol_tool_call_id :: "ol_tool_call \<Rightarrow> string" where
  "ol_tool_call_id toolCall =
     (case ol_id toolCall of
        None \<Rightarrow> ol_name toolCall
      | Some i \<Rightarrow> if i = [] then ol_name toolCall else i)"

definition ol_tool_args :: "env \<Rightarrow> ol_tool_call \<Rightarrow> js_error + json" where
  "ol_tool_args E toolCall =
     (case ol_arguments toolCall of
        ArgsString s \<Rightarrow> JSON_parse E s
      | ArgsObject obj \<Rightarrow> Inr obj)"

fun ollama_tool_calls ::
  "env \<Rightarrow> ol_tool_call list \<Rightarrow> event list \<Rightarrow> MCPClient \<Rightarrow> (js_error option) outcome" where
  "ollama_tool_calls E [] t c = (t, c, None)"
| "ollama_tool_calls E (toolCall # tcs) t c =
     (case ol_tool_args E toolCall of
        Inl e \<Rightarrow> (t, c, Some e)
      | Inr toolArgs \<Rightarrow>
          (let r = mcp_callTool E t (mcp c) (ol_name toolCall) toolArgs;
               t1 = t @ [CallTool (mcp c) (ol_name toolCall) toolArgs r]
           in case r of
                Inl e \<Rightarrow> (t1, c, Some e)
              | Inr res \<Rightarrow>
                  ollama_tool_calls E tcs t1
                    (push c (ToolMessage res (ol_tool_call_id toolCall)))))"

definition processQueryWithOllama ::
  "env \<Rightarrow> event list \<Rightarrow> MCPClient \<Rightarrow> string \<Rightarrow> (js_error + string) outcome" where
  "processQueryWithOllama E t c query =
     (case ollama_sdk c of
        None \<Rightarrow> (t, c, Inl (new_Error ''Ollama client not initialized''))
      | Some u \<Rightarrow>
          (let c1 = push c (UserText query);
               r = ollama_chat E t (conversationHistory c1) (tools_arg c1);
               t1 = t @ [ModelCall ollama (conversationHistory c1)]
           in case r of
                Inl e \<Rightarrow> (t1, c1, Inl e)
              | Inr msg \<Rightarrow>
                 (let assistantResponse = ol_content msg;
                      c2 = push c1 (OllamaAssistant (ol_content msg) (ol_tool_calls msg))
                  in case ol_tool_calls msg of
                       None \<Rightarrow> (t1, c2, Inr assistantResponse)
                     | Some tcs \<Rightarrow>
                        if length tcs > 0 then
                          (case ollama_tool_calls E tcs t1 c2 of
                             (t2, c3, Some e) \<Rightarrow> (t2, c3, Inl e)
                           | (t2, c3, None) \<Rightarrow>
                              (let f = ollama_chat E t2 (conversationHistory c3) (tools_arg c3);
                                   t3 = t2 @ [ModelCall ollama (conversationHistory c3)]
                               in case f of
                                    Inl e \<Rightarrow> (t3, c3, Inl e)
                                  | Inr followupMessage \<Rightarrow>
                                      (t3,
                                       push c3 (OllamaAssistant
                                         (ol_content followupMessage)
                                         (ol_tool_calls followupMessage)),
                                       Inr (ol_content followupMessage))))
                        else (t1, c2, Inr assistantResponse))))"

definition processQuery ::
  "env \<Rightarrow> event list \<Rightarrow> MCPClient \<Rightarrow> string \<Rightarrow> (js_error + string) outcome" where
  "processQuery E t c query =
     (if provider c = anthropic then processQueryWithAnthropic E t c query
      else if provider c = openai then processQueryWithOpenAI E t c query
      else if provider c = ollama then processQueryWithOllama E t c query
      else (t, c, Inl (new_Error ''Unsupported provider'')))"

section \<open>The MCP session of a client\<close>

text \<open>\<open>x || null\<close> on the transport's session id: undefined and the empty string are
  falsy.\<close>

definition or_null :: "string option \<Rightarrow> string option" where
  "or_null x = (case x of None \<Rightarrow> None | Some s \<Rightarrow> if s = [] then None else Some s)"

definition convert_tools :: "ModelProvider \<Rightarrow> tool list \<Rightarrow> mcp_tool list \<Rightarrow> tool list" where
  "convert_tools p old ts =
     (if p = anthropic then
        map (\<lambda>tl. AnthropicTool (tool_name tl) (tool_description tl) (inputSchema tl)) ts
      else if p = openai \<or> p = ollama then
        map (\<lambda>tl. FunctionTool (tool_name tl) (tool_description tl) (inputSchema tl)) ts
      else old)"

text \<open>\<open>connectToServer\<close>: every failure inside the \<open>try\<close> is logged and thrown again.\<close>

definition connectToServer :: "env \<Rightarrow> event list \<Rightarrow> MCPClient \<Rightarrow> (js_error + string) outcome" where
  "connectToServer E t c =
     (let c1 = c\<lparr>transport := Some None\<rparr>;
          r = mcp_connect E t (mcp c1) (apiToken c1);
          t1 = t @ [Connect (mcp c1) (apiToken c1)]
      in case r of
           Inl e \<Rightarrow> (t1 @ [Console LOG ''Failed to connect to MCP server: ''], c1, Inl e)
         | Inr sid \<Rightarrow>
            (let c2 = c1\<lparr>transport := Some sid, sessionId := or_null sid\<rparr>;
                 t2 = (if sessionId c2 = None
                       then t1 @ [Console WARN
                         ''MCP server did not provide Mcp-Session-Id header during initialization'']
                       else t1);
                 c3 = (if sessionId c2 = None then c2\<lparr>sessionId := None\<rparr> else c2);
                 toolsResult = mcp_listTools E t2 (mcp c3);
                 t3 = t2 @ [ListTools (mcp c3)]
             in case toolsResult of
                  Inl e \<Rightarrow> (t3 @ [Console LOG ''Failed to connect to MCP server: ''], c3, Inl e)
                | Inr ts \<Rightarrow>
                   (let c4 = c3\<lparr>tools := convert_tools (provider c3) (tools c3) ts\<rparr>;
                        t4 = t3 @ [Console LOG ''Connected to MCP server with session ID: '']
                    in (t4, c4,
                        Inr (case sessionId c4 of None \<Rightarrow> ''no-session'' | Some s \<Rightarrow> s)))))"

definition cleanup :: "env \<Rightarrow> event list \<Rightarrow> MCPClient \<Rightarrow> (js_error option) outcome" where
  "cleanup E t c = (t @ [Close (mcp c)], c, mcp_close E t (mcp c))"

text \<open>\<open>response.ok\<close> of a fetch response.\<close>

definition response_ok :: "nat \<Rightarrow> bool" where
  "response_ok st = (200 \<le> st \<and> st \<le> 299)"

text \<open>\<open>terminateSession\<close>: the DELETE request is sent only with a session id and a
  transport; whatever it does, \<open>cleanup\<close> follows. The result is \<open>Some e\<close> when the
  returned promise rejects with \<open>e\<close>.\<close>

definition terminateSession :: "env \<Rightarrow> event list \<Rightarrow> MCPClient \<Rightarrow> (js_error option) outcome" where
  "terminateSession E t c =
     (let t' =
        (case sessionId c of
           None \<Rightarrow> t
         | Some sid \<Rightarrow>
            if sid \<noteq> [] \<and> transport c \<noteq> None then
              (let r = fetch_DELETE E t sid (apiToken c);
                   t1 = t @ [FetchDelete sid (apiToken c)]
               in case r of
                    Inl e \<Rightarrow> t1 @ [Console ERROR ''Error terminating session '']
                  | Inr st \<Rightarrow>
                     if st = 405 then
                       t1 @ [Console LOG ''MCP server does not allow client-initiated session termination (405 Method Not Allowed)'']
                     else if response_ok st then
                       t1 @ [Console LOG ''Session terminated successfully'']
                     else t1 @ [Console WARN ''Failed to terminate session ''])
            else t)
      in cleanup E t' c)"

section \<open>The session registry\<close>

record SessionData =
  sd_sessionId :: string
  mcpClient :: MCPClient
  createdAt :: nat
  lastActivity :: nat
  sd_provider :: ModelProvider

text \<open>
  The process state: the global \<open>sessions\<close> map (a JavaScript \<open>Map\<close>: insertion order,
  \<open>set\<close> on a present key keeps its place), the trace, and the number of \<open>Client\<close>
  objects constructed so far. A \<open>SessionData\<close> holds its client by value; a handler
  that mutates the client of a registered session stores it back under its key.
\<close>

record server =
  sessions :: "(string \<times> SessionData) list"
  trace :: "event list"
  clients :: nat

definition createSession :: "env \<Rightarrow> server \<Rightarrow> string \<Rightarrow> ModelProvider \<Rightarrow> server \<times> (js_error + string)" where
  "createSession E s token p =
     (let mcpClient0 = new_MCPClient (clients s) token p;
          s1 = s\<lparr>clients := clients s + 1\<rparr>
      in case connectToServer E (trace s1) mcpClient0 of
           (t1, c1, Inl e) \<Rightarrow> (s1\<lparr>trace := t1\<rparr>, Inl e)
         | (t1, c1, Inr sid) \<Rightarrow>
            (let d1 = Date_now E t1;
                 t2 = t1 @ [DateRead d1];
                 d2 = Date_now E t2;
                 t3 = t2 @ [DateRead d2];
                 sessionData = \<lparr> sd_sessionId = sid, mcpClient = c1, createdAt = d1,
                                 lastActivity = d2, sd_provider = p \<rparr>
             in (s1\<lparr>trace := t3, sessions := AList.update sid sessionData (sessions s1)\<rparr>,
                 Inr sid)))"

definition getSession :: "env \<Rightarrow> server \<Rightarrow> string \<Rightarrow> server \<times> SessionData option" where
  "getSession E s sid =
     (case map_of (sessions s) sid of
        Some session \<Rightarrow>
          (let d = Date_now E (trace s);
               session' = session\<lparr>lastActivity := d\<rparr>
           in (s\<lparr>trace := trace s @ [DateRead d],
                 sessions := AList.update sid session' (sessions s)\<rparr>,
               Some session'))
      | None \<Rightarrow> (s, None))"

text \<open>\<open>removeSession\<close>: a rejection of \<open>terminateSession\<close> goes to \<open>console.error\<close>;
  the entry is deleted then.\<close>

definition removeSession :: "env \<Rightarrow> server \<Rightarrow> string \<Rightarrow> server" where
  "removeSession E s sid =
     (case map_of (sessions s) sid of
        Some session \<Rightarrow>
          (case terminateSession E (trace s) (mcpClient session) of
             (t1, c1, r) \<Rightarrow>
               (let t2 = (case r of None \<Rightarrow> t1 | Some e \<Rightarrow> t1 @ [Console ERROR (err_message e)])
                in s\<lparr>trace := t2, sessions := AList.delete sid (sessions s)\<rparr>))
      | None \<Rightarrow> s)"

section \<open>The request handlers\<close>

datatype response = Response (status: nat) (body: "(string \<times> jsval) list")

definition tool_names :: "tool list \<Rightarrow> jsval" where
  "tool_names ts =
     JArr (map (\<lambda>tl. case tl of AnthropicTool n d i \<Rightarrow> JStr n | FunctionTool n d i \<Rightarrow> JStr n) ts)"

definition provider_name :: "ModelProvider \<Rightarrow> string" where
  "provider_name p =
     (case p of anthropic \<Rightarrow> ''anthropic'' | openai \<Rightarrow> ''openai'' | ollama \<Rightarrow> ''ollama'')"

text \<open>\<open>connectHandler\<close>, from the \<open>authorization\<close> header and the \<open>provider\<close> field of the
  body.\<close>

definition connectHandler :: "env \<Rightarrow> server \<Rightarrow> string option \<Rightarrow> jsval \<Rightarrow> server \<times> response" where
  "connectHandler E s authHeader prov =
     (case authHeader of
        None \<Rightarrow>
          (s, Response 401 [(''error'', JStr ''Authorization header with Bearer token is required'')])
      | Some h \<Rightarrow>
         if h = [] \<or> take 7 h \<noteq> ''Bearer '' then
           (s, Response 401 [(''error'', JStr ''Authorization header with Bearer token is required'')])
         else
           (let token = drop 7 h;
                modelProvider =
                  (if prov = JStr ''openai'' then openai
                   else if prov = JStr ''ollama'' then ollama else anthropic)
            in case createSession E s token modelProvider of
                 (s1, Inl e) \<Rightarrow>
                   (s1\<lparr>trace := trace s1 @ [Console ERROR ''Failed to connect to MCP server:'']\<rparr>,
                    Response 500 [(''error'', JStr ''Failed to connect to MCP server'')])
               | (s1, Inr sid) \<Rightarrow>
                  (case getSession E s1 sid of
                     (s2, None) \<Rightarrow>
                       (s2, Response 500 [(''error'', JStr ''Failed to create session'')])
                   | (s2, Some sessionData) \<Rightarrow>
                       (s2, Response 200
                          [(''sessionId'', JStr sid),
                           (''message'', JStr (''Session created and connected to MCP server using ''
                               @ provider_name modelProvider)),
                           (''provider'', JStr (provider_name modelProvider)),
                           (''tools'', tool_names (tools (mcpClient sessionData)))]))))"

definition is_404 :: "js_error \<Rightarrow> bool" where
  "is_404 e = (err_status e = JNum 404 \<or> err_code e = JNum 404)"

text \<open>\<open>chatHandler\<close>, from the \<open>query\<close> and \<open>sessionId\<close> fields of the body (\<open>None\<close>
  for an absent field; an absent field and the empty string are falsy). \<open>chat_session\<close>
  is the handler after these two checks. The client that \<open>processQuery\<close> has mutated is
  the one the registry holds, so it is stored back before the result is looked at.
  Nothing in a handler throws outside its inner \<open>try\<close> (\<open>getSession\<close> and
  \<open>removeSession\<close> never throw), so the outer \<open>catch\<close> has no branch here; the
  read-only endpoints (\<open>/health\<close>, \<open>/sessions\<close>) are left out.\<close>

definition chat_session ::
  "env \<Rightarrow> server \<Rightarrow> string \<Rightarrow> string \<Rightarrow> server \<times> response" where
  "chat_session E s query sid =
     (case getSession E s sid of
        (s1, None) \<Rightarrow>
          (s1, Response 404 [(''error'',
             JStr ''Session not found or expired. Please connect again using /connect endpoint'')])
      | (s1, Some sessionData) \<Rightarrow>
         (case processQuery E (trace s1) (mcpClient sessionData) query of
            (t2, c2, r) \<Rightarrow>
              (let s2 = s1\<lparr>trace := t2,
                         sessions := AList.update sid
                           (sessionData\<lparr>mcpClient := c2\<rparr>) (sessions s1)\<rparr>
               in case r of
                    Inr resp \<Rightarrow>
                      (s2, Response 200
                         [(''response'', JStr resp),
                          (''sessionId'', JStr sid),
                          (''conversationLength'',
                             JNum (int (length (conversationHistory c2))))])
                  | Inl e \<Rightarrow>
                     if is_404 e then
                       (removeSession E
                          (s2\<lparr>trace := trace s2 @
                             [Console LOG ''Session terminated by MCP server (404)'']\<rparr>)
                          sid,
                        Response 404
                          [(''error'', JStr ''Session terminated by server. Please connect again.''),
                           (''requiresReconnect'', JBool True)])
                     else
                       (s2\<lparr>trace := trace s2 @
                          [Console ERROR ''Error processing query for session '']\<rparr>,
                        Response 500 [(''error'', JStr ''Failed to process query'')]))))"

definition chatHandler ::
  "env \<Rightarrow> server \<Rightarrow> string option \<Rightarrow> string option \<Rightarrow> server \<times> response" where
  "chatHandler E s query sid =
     (case query of
        None \<Rightarrow> (s, Response 400 [(''error'', JStr ''Query is required'')])
      | Some q \<Rightarrow>
         if q = [] then (s, Response 400 [(''error'', JStr ''Query is required'')])
         else
          (case sid of
             None \<Rightarrow>
               (s, Response 400 [(''error'',
                  JStr ''SessionId is required. Please connect first using /connect endpoint'')])
           | Some i \<Rightarrow>
              if i = [] then
                (s, Response 400 [(''error'',
                   JStr ''SessionId is required. Please connect first using /connect endpoint'')])
              else chat_session E s q i))"

text \<open>\<open>disconnectHandler\<close>, from the \<open>sessionId\<close> field of the body.\<close>

definition disconnectHandler :: "env \<Rightarrow> server \<Rightarrow> string option \<Rightarrow> server \<times> response" where
  "disconnectHandler E s sid =
     (case sid of
        None \<Rightarrow> (s, Response 400 [(''error'', JStr ''SessionId is required'')])
      | Some i \<Rightarrow>
         if i = [] then (s, Response 400 [(''error'', JStr ''SessionId is required'')])
         else
          (case getSession E s i of
             (s1, None) \<Rightarrow> (s1, Response 404 [(''error'', JStr ''Session not found'')])
           | (s1, Some session) \<Rightarrow>
               (removeSession E s1 i,
                Response 200
                  [(''message'', JStr ''Session disconnected successfully''),
                   (''sessionId'', JStr i)])))"

section \<open>Notions used by the properties\<close>

text \<open>The state of a freshly started process.\<close>

definition init_server :: server where
  "init_server = \<lparr> sessions = [], trace = [], clients = 0 \<rparr>"

text \<open>How often the connection of client \<open>n\<close> is released in a run of events.\<close>

definition closes :: "nat \<Rightarrow> event list \<Rightarrow> nat" where
  "closes n evs = length (filter (\<lambda>e. e = Close n) evs)"

text \<open>The trace at the moment \<open>connectToServer\<close> asks for the tools, after a handshake
  that left \<open>x\<close> as the transport's session id.\<close>

definition discovery_trace :: "event list \<Rightarrow> nat \<Rightarrow> string \<Rightarrow> string option \<Rightarrow> event list" where
  "discovery_trace t n token x =
     (if or_null x = None
      then t @ [Connect n token,
                Console WARN ''MCP server did not provide Mcp-Session-Id header during initialization'']
      else t @ [Connect n token])"

text \<open>
  An environment in which every call succeeds, for concrete runs: each model answers a
  user message with one request for the tool \<open>search\<close> and anything else with text; the
  tool server hands out the session id \<open>sess-1\<close> and lists one tool. An Anthropic
  \<open>input\<close> and Ollama's arguments arrive as objects; the OpenAI model sends the
  arguments as the JSON string \<open>{}\<close>, the only string \<open>JSON.parse\<close> is given in these
  runs: it parses, and the stand-in for \<open>JSON.parse\<close> accepts nothing else.
\<close>

definition ends_with_user :: "message list \<Rightarrow> bool" where
  "ends_with_user h = (case rev h of UserText q # ms \<Rightarrow> True | _ \<Rightarrow> False)"

definition env_ok :: env where
  "env_ok =
     \<lparr> anthropic_messages_create = (\<lambda>t h ts.
         if ends_with_user h
         then Inr [TextBlock ''Searching. '', ToolUseBlock ''toolu_1'' ''search'' ''{q: cats}'']
         else Inr [TextBlock ''Found 3 results.'']),
       openai_chat_completions_create = (\<lambda>t h ts.
         if ends_with_user h
         then Inr [OAMessage None (Some [OAToolCall ''call_1'' ''search'' ''{}''])]
         else Inr [OAMessage (Some ''Found 3 results.'') None]),
       ollama_chat = (\<lambda>t h ts.
         if ends_with_user h
         then Inr (OLMessage [] (Some [OLToolCall None ''search'' (ArgsObject ''{q: cats}'')]))
         else Inr (OLMessage ''Found 3 results.'' None)),
       mcp_connect = (\<lambda>t n token. Inr (Some ''sess-1'')),
       mcp_listTools = (\<lambda>t n. Inr [McpTool ''search'' (Some ''Search the web'') ''{}'']),
       mcp_callTool = (\<lambda>t n nm args. Inr ''3 results''),
       mcp_close = (\<lambda>t n. None),
       fetch_DELETE = (\<lambda>t sid token. Inr 200),
       JSON_parse = (\<lambda>s. if s = ''{}'' then Inr ''{}''
                          else Inl (new_Error ''SyntaxError: not valid JSON'')),
       Date_now = (\<lambda>t. length t) \<rparr>"

text \<open>Events of a run by kind: model calls, and the error of a failed tool call.\<close>

fun is_ModelCall :: "event \<Rightarrow> bool" where
  "is_ModelCall (ModelCall p h) = True"
| "is_ModelCall ev = False"

fun failed_tool_call :: "event \<Rightarrow> js_error option" where
  "failed_tool_call (CallTool n nm a (Inl e)) = Some e"
| "failed_tool_call ev = None"

text \<open>The events a chat round of client \<open>n\<close> can add: model calls and tool calls on
  its own connection.\<close>

fun round_event :: "nat \<Rightarrow> event \<Rightarrow> bool" where
  "round_event n (ModelCall p h) = True"
| "round_event n (CallTool m nm a r) = (m = n)"
| "round_event n ev = False"

text \<open>\<open>c'\<close> is \<open>c\<close> with the messages \<open>ms\<close> appended to its history and nothing else
  changed.\<close>

definition extends :: "MCPClient \<Rightarrow> MCPClient \<Rightarrow> message list \<Rightarrow> bool" where
  "extends c c' ms = (c' = c\<lparr>conversationHistory := conversationHistory c @ ms\<rparr>)"

text \<open>The kinds of message of the conversation state, the tool requests an assistant
  message carries and their correlation ids, and the correlation id of a tool result.\<close>

datatype kind = KUser | KAssistant | KToolResult

fun kind_of :: "message \<Rightarrow> kind" where
  "kind_of (UserText q) = KUser"
| "kind_of (AnthropicAssistant bs) = KAssistant"
| "kind_of (AnthropicToolResult i r) = KToolResult"
| "kind_of (OpenAIAssistant c tcs) = KAssistant"
| "kind_of (OllamaAssistant c tcs) = KAssistant"
| "kind_of (ToolMessage r i) = KToolResult"

fun block_ids :: "content_block list \<Rightarrow> string list" where
  "block_ids [] = []"
| "block_ids (ToolUseBlock i n a # bs) = i # block_ids bs"
| "block_ids (TextBlock s # bs) = block_ids bs"
| "block_ids (OtherBlock k # bs) = block_ids bs"

fun request_ids :: "message \<Rightarrow> string list" where
  "request_ids (AnthropicAssistant bs) = block_ids bs"
| "request_ids (OpenAIAssistant c (Some tcs)) = map oa_id tcs"
| "request_ids (OllamaAssistant c (Some tcs)) = map ol_tool_call_id tcs"
| "request_ids m = []"

definition tool_requests :: "message \<Rightarrow> nat" where
  "tool_requests m = length (request_ids m)"

fun tool_result_id :: "message \<Rightarrow> string option" where
  "tool_result_id (AnthropicToolResult i r) = Some i"
| "tool_result_id (ToolMessage r i) = Some i"
| "tool_result_id m = None"

text \<open>Every tool result of the history comes after an assistant message that carries a
  request with its correlation id; \<open>seen\<close> are the ids requested so far.\<close>

fun results_preceded :: "string list \<Rightarrow> message list \<Rightarrow> bool" where
  "results_preceded seen [] = True"
| "results_preceded seen (m # ms) =
     ((case tool_result_id m of None \<Rightarrow> True | Some i \<Rightarrow> i \<in> set seen)
      \<and> results_preceded (seen @ request_ids m) ms)"

text \<open>The number of tool requests in the answer of the model to the first call of a chat
  round with query \<open>q\<close> (\<open>None\<close> when that call gives no message).\<close>

definition initial_tool_requests :: "env \<Rightarrow> event list \<Rightarrow> MCPClient \<Rightarrow> string \<Rightarrow> nat option" where
  "initial_tool_requests E t c q =
     (if provider c = anthropic then
        (case anthropic_messages_create E t (conversationHistory c @ [UserText q]) (tools c) of
           Inl e \<Rightarrow> None
         | Inr content \<Rightarrow> Some (tool_requests (AnthropicAssistant content)))
      else if provider c = openai then
        (case openai_chat_completions_create E t (conversationHistory c @ [UserText q])
                (tools_arg c) of
           Inl e \<Rightarrow> None
         | Inr choices \<Rightarrow>
            (case choices of
               [] \<Rightarrow> None
             | m # ms \<Rightarrow> Some (tool_requests (OpenAIAssistant (oa_content m) (oa_tool_calls m)))))
      else
        (case ollama_chat E t (conversationHistory c @ [UserText q]) (tools_arg c) of
           Inl e \<Rightarrow> None
         | Inr m \<Rightarrow> Some (tool_requests (OllamaAssistant (ol_content m) (ol_tool_calls m)))))"

text \<open>The tool an event calls.\<close>

fun called_tool :: "event \<Rightarrow> string option" where
  "called_tool (CallTool n nm a r) = Some nm"
| "called_tool ev = None"

text \<open>
  What a part of a chat round of client \<open>c\<close> may do: it adds events to the trace, all
  of them model calls or tool calls of this client, it appends messages to the history
  and changes nothing else of the client, and a failed tool call among the events is the
  failure \<open>f\<close> the part ends with.
\<close>

definition round_shape :: "MCPClient \<Rightarrow> event list \<Rightarrow> event list \<Rightarrow> MCPClient \<Rightarrow> js_error option \<Rightarrow> bool" where
  "round_shape c t t' c' f =
     (\<exists>evs ms. t' = t @ evs \<and> extends c c' ms \<and> (\<forall>ev \<in> set evs. round_event (mcp c) ev) \<and>
        (\<forall>ev \<in> set evs. \<forall>e. failed_tool_call ev = Some e \<longrightarrow> f = Some e))"

definition failure :: "js_error + 'a \<Rightarrow> js_error option" where
  "failure r = (case r of Inl e \<Rightarrow> Some e | Inr x \<Rightarrow> None)"

text \<open>Variants of that environment: the Anthropic model asks for two tools in one
  response; the model provider answers 404; the tool server answers a tool call with
  404; the tool server sends no session id; the tool server refuses DELETE with 405.\<close>

definition env_two_tools :: env where
  "env_two_tools = env_ok\<lparr>anthropic_messages_create := (\<lambda>t h ts.
      if ends_with_user h
      then Inr [ToolUseBlock ''toolu_1'' ''search'' ''{q: cats}'',
                ToolUseBlock ''toolu_2'' ''search'' ''{q: dogs}'']
      else Inr [TextBlock ''Found 3 results.''])\<rparr>"

definition env_provider_404 :: env where
  "env_provider_404 = env_ok\<lparr>anthropic_messages_create :=
      (\<lambda>t h ts. Inl (JsError (JNum 404) JUndefined ''not_found_error''))\<rparr>"

definition env_tool_404 :: env where
  "env_tool_404 = env_ok\<lparr>mcp_callTool :=
      (\<lambda>t n nm args. Inl (JsError JUndefined (JNum 404) ''Session not found''))\<rparr>"

definition env_no_header :: env where
  "env_no_header = env_ok\<lparr>mcp_connect := (\<lambda>t n token. Inr None)\<rparr>"

definition env_405 :: env where
  "env_405 = env_ok\<lparr>fetch_DELETE := (\<lambda>t sid token. Inr 405)\<rparr>"

text \<open>A client as \<open>connectToServer\<close> leaves it in that environment, and the process
  after one successful \<open>createSession\<close>.\<close>

definition demo_client :: "ModelProvider \<Rightarrow> MCPClient" where
  "demo_client p = fst (snd (connectToServer env_ok [] (new_MCPClient 0 ''tok'' p)))"

definition demo_server :: "ModelProvider \<Rightarrow> server" where
  "demo_server p = fst (createSession env_ok init_server ''tok'' p)"

text \<open>The router: the three endpoints that change the process state, and a sequence of
  requests served one after the other.\<close>

datatype request =
    ConnectRequest "string option" jsval
  | ChatRequest "string option" "string option"
  | DisconnectRequest "string option"

definition route :: "env \<Rightarrow> server \<Rightarrow> request \<Rightarrow> server \<times> response" where
  "route E s req =
     (case req of
        ConnectRequest authHeader prov \<Rightarrow> connectHandler E s authHeader prov
      | ChatRequest query sid \<Rightarrow> chatHandler E s query sid
      | DisconnectRequest sid \<Rightarrow> disconnectHandler E s sid)"

fun serve :: "env \<Rightarrow> server \<Rightarrow> request list \<Rightarrow> server" where
  "serve E s [] = s"
| "serve E s (req # reqs) = serve E (fst (route E s req)) reqs"

text \<open>
  The invariant of the process state: the registry has one entry per key; the client of
  every entry was constructed by this process and no two entries hold the same client;
  in every history the tool results are preceded by their requests; only connections of
  constructed clients have been released.
\<close>

definition client_of :: "string \<times> SessionData \<Rightarrow> MCPClient" where
  "client_of p = mcpClient (snd p)"

definition wf_server :: "server \<Rightarrow> bool" where
  "wf_server s =
     (distinct (map fst (sessions s)) \<and>
      (\<forall>p \<in> set (sessions s). mcp (client_of p) < clients s \<and>
          results_preceded [] (conversationHistory (client_of p))) \<and>
      (\<forall>p \<in> set (sessions s). \<forall>p' \<in> set (sessions s).
          mcp (client_of p) = mcp (client_of p') \<longrightarrow> p = p') \<and>
      (\<forall>n. Close n \<in> set (trace s) \<longrightarrow> n < clients s))"

text \<open>
  \<open>evolves s s'\<close>: what a run of requests may do to the process. Clients are only
  added; the trace only grows, and a connection it releases is that of a registered
  session (or of a client constructed during the run); a session that was constructed
  before the run and is still registered was registered before, with a history that is
  a prefix of its history now.
\<close>

definition evolves :: "server \<Rightarrow> server \<Rightarrow> bool" where
  "evolves s s' =
     (clients s \<le> clients s' \<and>
      (\<exists>evs. trace s' = trace s @ evs \<and>
         (\<forall>n. Close n \<in> set evs \<longrightarrow> n < clients s \<longrightarrow>
              (\<exists>p \<in> set (sessions s). mcp (client_of p) = n))) \<and>
      (\<forall>p' \<in> set (sessions s'). mcp (client_of p') < clients s \<longrightarrow>
         (\<exists>p \<in> set (sessions s). mcp (client_of p) = mcp (client_of p') \<and>
            prefix (conversationHistory (client_of p)) (conversationHistory (client_of p')))))"

text \<open>The process after one and after two successful \<open>createSession\<close> calls against a
  tool server that sends no session id.\<close>

definition sentinel_server1 :: server where
  "sentinel_server1 = fst (createSession env_no_header init_server ''tok'' anthropic)"

definition sentinel_server2 :: server where
  "sentinel_server2 = fst (createSession env_no_header sentinel_server1 ''tok2'' openai)"

text \<open>The error the first model call of a chat round with query \<open>q\<close> throws, if it
  throws; and a client whose provider member is initialised, as the constructor leaves
  it.\<close>

definition initial_call_error :: "env \<Rightarrow> event list \<Rightarrow> MCPClient \<Rightarrow> string \<Rightarrow> js_error option" where
  "initial_call_error E t c q =
     (if provider c = anthropic then
        (case anthropic_messages_create E t (conversationHistory c @ [UserText q]) (tools c) of
           Inl e \<Rightarrow> Some e | Inr content \<Rightarrow> None)
      else if provider c = openai then
        (case openai_chat_completions_create E t (conversationHistory c @ [UserText q])
                (tools_arg c) of
           Inl e \<Rightarrow> Some e | Inr choices \<Rightarrow> None)
      else
        (case ollama_chat E t (conversationHistory c @ [UserText q]) (tools_arg c) of
           Inl e \<Rightarrow> Some e | Inr m \<Rightarrow> None))"

definition sdk_ready :: "MCPClient \<Rightarrow> bool" where
  "sdk_ready c =
     (if provider c = anthropic then anthropic_sdk c \<noteq> None
      else if provider c = openai then openai_sdk c \<noteq> None
      else ollama_sdk c \<noteq> None)"

text \<open>The identifier \<open>connectToServer\<close> returns for a handshake that left \<open>x\<close> as the
  transport's session id: \<open>(x || null) || "no-session"\<close>.\<close>

definition id_or_sentinel :: "string option \<Rightarrow> string" where
  "id_or_sentinel x = (case or_null x of None \<Rightarrow> ''no-session'' | Some i \<Rightarrow> i)"

text \<open>
  A model call as a round makes it, first call and follow-up alike: the call to the
  provider of the client, and the assistant message the round appends for the response
  (\<open>response.content\<close>, \<open>response.choices[0].message\<close>, \<open>response.message\<close>). The
  tool invocations a response asks for, in request order: correlation id, tool name, and
  the arguments as they are handed to \<open>callTool\<close> (an Anthropic \<open>input\<close> as it is, the
  OpenAI \<open>arguments\<close> through \<open>JSON.parse\<close>, Ollama's through \<open>JSON.parse\<close> when they
  are a string). The tool-result message the round appends for a result.
\<close>

definition model_reply :: "env \<Rightarrow> event list \<Rightarrow> MCPClient \<Rightarrow> message list \<Rightarrow> js_error + message" where
  "model_reply E t c h =
     (if provider c = anthropic then
        (case anthropic_messages_create E t h (tools c) of
           Inl e \<Rightarrow> Inl e
         | Inr content \<Rightarrow> Inr (AnthropicAssistant content))
      else if provider c = openai then
        (case openai_chat_completions_create E t h (tools_arg c) of
           Inl e \<Rightarrow> Inl e
         | Inr choices \<Rightarrow>
            (case first_choice choices of
               Inl e \<Rightarrow> Inl e
             | Inr m \<Rightarrow> Inr (OpenAIAssistant (oa_content m) (oa_tool_calls m))))
      else
        (case ollama_chat E t h (tools_arg c) of
           Inl e \<Rightarrow> Inl e
         | Inr m \<Rightarrow> Inr (OllamaAssistant (ol_content m) (ol_tool_calls m))))"

fun block_dispatches :: "content_block list \<Rightarrow> (string \<times> string \<times> (js_error + json)) list" where
  "block_dispatches [] = []"
| "block_dispatches (ToolUseBlock i n a # bs) = (i, n, Inr a) # block_dispatches bs"
| "block_dispatches (TextBlock s # bs) = block_dispatches bs"
| "block_dispatches (OtherBlock k # bs) = block_dispatches bs"

fun tool_dispatches :: "env \<Rightarrow> message \<Rightarrow> (string \<times> string \<times> (js_error + json)) list" where
  "tool_dispatches E (AnthropicAssistant bs) = block_dispatches bs"
| "tool_dispatches E (OpenAIAssistant c (Some tcs)) =
     map (\<lambda>tc. (oa_id tc, oa_name tc, JSON_parse E (oa_arguments tc))) tcs"
| "tool_dispatches E (OllamaAssistant c (Some tcs)) =
     map (\<lambda>tc. (ol_tool_call_id tc, ol_name tc, ol_tool_args E tc)) tcs"
| "tool_dispatches E m = []"

definition tool_result_message :: "MCPClient \<Rightarrow> string \<Rightarrow> json \<Rightarrow> message" where
  "tool_result_message c i res =
     (if provider c = anthropic then AnthropicToolResult i res else ToolMessage res i)"

text \<open>
  A connect request that is answered with the session id \<open>i\<close>; a sequence of requests,
  served one after the other from state \<open>s\<close>, one of which is such a connect request.
  A tool server that answers every tool call with 404 and names the session after the
  token it is given.
\<close>

definition connect_returns :: "env \<Rightarrow> server \<Rightarrow> request \<Rightarrow> string \<Rightarrow> bool" where
  "connect_returns E s req i =
     (case req of
        ConnectRequest authHeader prov \<Rightarrow>
          map_of (body (snd (connectHandler E s authHeader prov))) ''sessionId'' = Some (JStr i)
      | ChatRequest query sid \<Rightarrow> False
      | DisconnectRequest sid \<Rightarrow> False)"

fun registered_again :: "env \<Rightarrow> server \<Rightarrow> request list \<Rightarrow> string \<Rightarrow> bool" where
  "registered_again E s [] i = False"
| "registered_again E s (req # reqs) i =
     (connect_returns E s req i \<or> registered_again E (fst (route E s req)) reqs i)"

definition env_tool_404_by_token :: env where
  "env_tool_404_by_token =
     env_tool_404\<lparr>mcp_connect := (\<lambda>t n token. Inr (Some (''sess-'' @ token)))\<rparr>"

section \<open>Properties of session creation and removal\<close>

lemma connectToServer_connect_fails:
  "mcp_connect E t (mcp c) (apiToken c) = Inl e \<Longrightarrow> snd (snd (connectToServer E t c)) = Inl e"
  by (simp add: connectToServer_def Let_def)

lemma connectToServer_listTools_fails:
  "mcp_connect E t (mcp c) (apiToken c) = Inr x \<Longrightarrow>
   mcp_listTools E (discovery_trace t (mcp c) (apiToken c) x) (mcp c) = Inl e \<Longrightarrow>
   snd (snd (connectToServer E t c)) = Inl e"
  by (auto simp add: connectToServer_def discovery_trace_def Let_def split: if_splits)

lemma createSession_fail:
  "snd (snd (connectToServer E (trace s) (new_MCPClient (clients s) token p))) = Inl e \<Longrightarrow>
   snd (createSession E s token p) = Inl e \<and> sessions (fst (createSession E s token p)) = sessions s"
  by (auto simp add: createSession_def Let_def split: prod.splits sum.splits)

text \<open>
  C6. When the handshake (\<open>mcp.connect\<close>) or the tool discovery (\<open>mcp.listTools\<close>) of a
  session creation fails with \<open>e\<close>, \<open>createSession\<close> fails with the same \<open>e\<close> and the
  registry afterwards is the registry before.
\<close>

theorem createSession_failure_registers_nothing:
  assumes "mcp_connect E (trace s) (clients s) token = Inl e \<or>
     (\<exists>x. mcp_connect E (trace s) (clients s) token = Inr x \<and>
        mcp_listTools E (discovery_trace (trace s) (clients s) token x) (clients s) = Inl e)"
  shows "snd (createSession E s token p) = Inl e \<and>
         sessions (fst (createSession E s token p)) = sessions s"
proof -
  let ?c = "new_MCPClient (clients s) token p"
  have m: "mcp ?c = clients s" "apiToken ?c = token" by (simp_all add: new_MCPClient_def)
  from assms have "snd (snd (connectToServer E (trace s) ?c)) = Inl e"
  proof
    assume "mcp_connect E (trace s) (clients s) token = Inl e"
    then show ?thesis using connectToServer_connect_fails[of E "trace s" ?c e] by (simp only: m)
  next
    assume "\<exists>x. mcp_connect E (trace s) (clients s) token = Inr x \<and>
        mcp_listTools E (discovery_trace (trace s) (clients s) token x) (clients s) = Inl e"
    then obtain x where "mcp_connect E (trace s) (clients s) token = Inr x"
      "mcp_listTools E (discovery_trace (trace s) (clients s) token x) (clients s) = Inl e" by blast
    then show ?thesis using connectToServer_listTools_fails[of E "trace s" ?c x e] by (simp only: m)
  qed
  then show ?thesis by (rule createSession_fail)
qed

theorem createSession_failure_witness:
  "mcp_connect (env_ok\<lparr>mcp_connect := (\<lambda>t n token. Inl (new_Error ''ECONNREFUSED''))\<rparr>)
      (trace init_server) (clients init_server) ''tok'' = Inl (new_Error ''ECONNREFUSED'') \<and>
   snd (createSession (env_ok\<lparr>mcp_connect := (\<lambda>t n token. Inl (new_Error ''ECONNREFUSED''))\<rparr>)
      init_server ''tok'' anthropic) = Inl (new_Error ''ECONNREFUSED'') \<and>
   sessions (fst (createSession (env_ok\<lparr>mcp_connect := (\<lambda>t n token. Inl (new_Error ''ECONNREFUSED''))\<rparr>)
      init_server ''tok'' anthropic)) = [] \<and>
   mcp_listTools (env_ok\<lparr>mcp_listTools := (\<lambda>t n. Inl (new_Error ''listTools failed''))\<rparr>)
      (discovery_trace (trace init_server) (clients init_server) ''tok'' (Some ''sess-1''))
      (clients init_server) = Inl (new_Error ''listTools failed'') \<and>
   snd (createSession (env_ok\<lparr>mcp_listTools := (\<lambda>t n. Inl (new_Error ''listTools failed''))\<rparr>)
      init_server ''tok'' openai) = Inl (new_Error ''listTools failed'') \<and>
   sessions (fst (createSession (env_ok\<lparr>mcp_listTools := (\<lambda>t n. Inl (new_Error ''listTools failed''))\<rparr>)
      init_server ''tok'' openai)) = []"
  using createSession_failure_registers_nothing
     [of "env_ok\<lparr>mcp_connect := (\<lambda>t n token. Inl (new_Error ''ECONNREFUSED''))\<rparr>"
         init_server "''tok''" "new_Error ''ECONNREFUSED''" anthropic]
    createSession_failure_registers_nothing
     [of "env_ok\<lparr>mcp_listTools := (\<lambda>t n. Inl (new_Error ''listTools failed''))\<rparr>"
         init_server "''tok''" "new_Error ''listTools failed''" openai]
  by (simp add: env_ok_def init_server_def)

lemma getSession_miss: "map_of (sessions s) i = None \<Longrightarrow> getSession E s i = (s, None)"
  by (simp add: getSession_def)

lemma removeSession_miss: "map_of (sessions s) i = None \<Longrightarrow> removeSession E s i = s"
  by (simp add: removeSession_def)

text \<open>
  C8. Disconnecting a session id that the registry does not hold changes nothing: the
  whole process state (registry with every session's history and timestamps, trace of
  calls to the tool server) is the state before, \<open>removeSession\<close> itself is the identity
  there, and for a supplied (non-empty) id the answer is 404 "Session not found".
\<close>

theorem disconnect_unknown_session_no_effect:
  assumes "map_of (sessions s) i = None"
  shows "fst (disconnectHandler E s (Some i)) = s \<and> removeSession E s i = s \<and>
     (i \<noteq> [] \<longrightarrow>
        snd (disconnectHandler E s (Some i)) = Response 404 [(''error'', JStr ''Session not found'')])"
  using assms by (simp add: disconnectHandler_def getSession_miss removeSession_miss)


theorem disconnect_unknown_witness:
  "map_of (sessions init_server) ''ghost'' = None \<and>
   disconnectHandler env_ok init_server (Some ''ghost'') =
     (init_server, Response 404 [(''error'', JStr ''Session not found'')]) \<and>
   removeSession env_ok init_server ''ghost'' = init_server"
  using disconnect_unknown_session_no_effect [of init_server "''ghost''" env_ok]
  by (simp add: init_server_def prod_eq_iff)


section \<open>Properties of a chat round\<close>


lemma extends_refl: "extends c c []"
  by (simp add: extends_def)

lemma extends_push: "extends (push c m) c' ms \<Longrightarrow> extends c c' (m # ms)"
  by (simp add: extends_def push_def)

lemma extends_push1: "extends c (push c m) [m]"
  by (simp add: extends_def push_def)

lemma extends_mcp: "extends c c' ms \<Longrightarrow> mcp c' = mcp c"
  by (simp add: extends_def)

lemma results_preceded_append:
  "results_preceded seen (xs @ ys) =
     (results_preceded seen xs \<and> results_preceded (seen @ concat (map request_ids xs)) ys)"
  by (induction xs arbitrary: seen) auto

lemma anthropic_blocks_preceded:
  "anthropic_blocks E bs t c acc = (t', c', r) \<Longrightarrow>
   set (block_ids bs) \<subseteq> set (concat (map request_ids (conversationHistory c))) \<Longrightarrow>
   results_preceded [] (conversationHistory c) \<Longrightarrow>
   results_preceded [] (conversationHistory c')"
proof (induction bs arbitrary: t c acc)
  case Nil
  then show ?case by auto
next
  case (Cons b bs)
  show ?case
  proof (cases b)
    case (TextBlock s)
    with Cons show ?thesis by simp
  next
    case (OtherBlock k)
    with Cons show ?thesis by simp
  next
    case (ToolUseBlock i toolName toolArgs)
    note run0 = Cons.prems(1)[unfolded ToolUseBlock]
    from Cons.prems(2) ToolUseBlock have ids:
      "i \<in> set (concat (map request_ids (conversationHistory c)))"
      "set (block_ids bs) \<subseteq> set (concat (map request_ids (conversationHistory c)))" by auto
    show ?thesis
    proof (cases "mcp_callTool E t (mcp c) toolName toolArgs")
      case (Inl e)
      with run0 have "c' = c" by (auto simp add: Let_def)
      with Cons.prems show ?thesis by simp
    next
      case (Inr res)
      let ?c1 = "push c (AnthropicToolResult i res)"
      let ?t1 = "t @ [CallTool (mcp c) toolName toolArgs (Inr res)]"
      let ?t2 = "?t1 @ [ModelCall anthropic (conversationHistory ?c1)]"
      have p1: "results_preceded [] (conversationHistory ?c1)"
        using Cons.prems(3) ids(1) by (simp add: push_def results_preceded_append)
      show ?thesis
      proof (cases "anthropic_messages_create E ?t1 (conversationHistory ?c1) (tools ?c1)")
        case (Inl e)
        with run0 Inr have "c' = ?c1" by (auto simp add: Let_def)
        with p1 show ?thesis by simp
      next
        case fu: (Inr followup)
        let ?c2 = "push ?c1 (AnthropicAssistant followup)"
        from run0 Inr fu have run: "anthropic_blocks E bs ?t2 ?c2 (append_texts acc followup) = (t', c', r)"
          by (simp add: Let_def)
        have p2: "results_preceded [] (conversationHistory ?c2)"
          using Cons.prems(3) ids(1) by (simp add: push_def results_preceded_append)
        have "set (block_ids bs) \<subseteq> set (concat (map request_ids (conversationHistory ?c2)))"
          using ids(2) by (auto simp add: push_def)
        from Cons.IH[OF run this p2] show ?thesis .
      qed
    qed
  qed
qed

lemma shape_refl: "round_shape c t t c f"
  unfolding round_shape_def by (intro exI[of _ "[]"]) (simp add: extends_refl)

lemma shape_events:
  "extends c c' ms \<Longrightarrow> \<forall>ev \<in> set evs. round_event (mcp c) ev \<Longrightarrow>
   \<forall>ev \<in> set evs. \<forall>e. failed_tool_call ev = Some e \<longrightarrow> f = Some e \<Longrightarrow>
   round_shape c t (t @ evs) c' f"
  unfolding round_shape_def by blast

lemma shape_trans:
  assumes "round_shape c t t1 c1 None" "round_shape c1 t1 t2 c2 f"
  shows "round_shape c t t2 c2 f"
proof -
  from assms(1) obtain evs ms where a: "t1 = t @ evs" "extends c c1 ms"
    "\<forall>ev \<in> set evs. round_event (mcp c) ev"
    "\<forall>ev \<in> set evs. \<forall>e. failed_tool_call ev \<noteq> Some e"
    unfolding round_shape_def by auto
  from assms(2) obtain evs' ms' where b: "t2 = t1 @ evs'" "extends c1 c2 ms'"
    "\<forall>ev \<in> set evs'. round_event (mcp c1) ev"
    "\<forall>ev \<in> set evs'. \<forall>e. failed_tool_call ev = Some e \<longrightarrow> f = Some e"
    unfolding round_shape_def by auto
  have m: "mcp c1 = mcp c" using a(2) by (rule extends_mcp)
  have e: "extends c c2 (ms @ ms')" using a(2) b(2) by (simp add: extends_def)
  show ?thesis unfolding round_shape_def
    using a b m e by (intro exI[of _ "evs @ evs'"] exI[of _ "ms @ ms'"]) auto
qed

lemma shape_tool_ok:
  "round_shape c t (t @ [CallTool (mcp c) nm a (Inr res)]) (push c m) None"
  by (rule shape_events[of c _ "[m]"]) (simp_all add: extends_push1)

lemma shape_tool_fail:
  "round_shape c t (t @ [CallTool (mcp c) nm a (Inl e)]) c (Some e)"
  by (rule shape_events[of c _ "[]"]) (simp_all add: extends_refl)

lemma shape_model:
  "round_shape c t (t @ [ModelCall p h]) c f"
  by (rule shape_events[of c _ "[]"]) (simp_all add: extends_refl)

lemma shape_push: "round_shape c t t (push c m) f"
  using shape_events[of c "push c m" "[m]" "[]" f t] by (simp add: extends_push1)

lemma openai_tool_calls_shape:
  "openai_tool_calls E tcs t c = (t', c', r) \<Longrightarrow> round_shape c t t' c' r"
proof (induction tcs arbitrary: t c)
  case Nil
  then show ?case by (auto intro: shape_refl)
next
  case (Cons tc tcs)
  show ?case
  proof (cases "JSON_parse E (oa_arguments tc)")
    case (Inl e)
    with Cons.prems show ?thesis by (auto intro: shape_refl)
  next
    case args: (Inr toolArgs)
    show ?thesis
    proof (cases "mcp_callTool E t (mcp c) (oa_name tc) toolArgs")
      case (Inl e)
      with Cons.prems args show ?thesis by (auto simp add: Let_def intro: shape_tool_fail)
    next
      case (Inr res)
      with Cons.prems args have
        "openai_tool_calls E tcs (t @ [CallTool (mcp c) (oa_name tc) toolArgs (Inr res)])
           (push c (ToolMessage res (oa_id tc))) = (t', c', r)" by (simp add: Let_def)
      from Cons.IH[OF this] shape_tool_ok show ?thesis by (rule shape_trans[rotated])
    qed
  qed
qed

lemma openai_tool_calls_ok:
  "openai_tool_calls E tcs t c = (t', c', None) \<Longrightarrow>
   \<exists>evs ms. t' = t @ evs \<and> extends c c' ms \<and>
     map called_tool evs = map (\<lambda>tc. Some (oa_name tc)) tcs \<and>
     map tool_result_id ms = map (\<lambda>tc. Some (oa_id tc)) tcs \<and>
     map kind_of ms = replicate (length tcs) KToolResult"
proof (induction tcs arbitrary: t c)
  case Nil
  then show ?case by (auto intro: extends_refl)
next
  case (Cons tc tcs)
  from Cons.prems obtain toolArgs where args: "JSON_parse E (oa_arguments tc) = Inr toolArgs"
    by (cases "JSON_parse E (oa_arguments tc)") auto
  from Cons.prems args obtain res where res: "mcp_callTool E t (mcp c) (oa_name tc) toolArgs = Inr res"
    by (cases "mcp_callTool E t (mcp c) (oa_name tc) toolArgs") (auto simp add: Let_def)
  let ?ev = "CallTool (mcp c) (oa_name tc) toolArgs (Inr res)"
  let ?m = "ToolMessage res (oa_id tc)"
  from Cons.prems args res have "openai_tool_calls E tcs (t @ [?ev]) (push c ?m) = (t', c', None)"
    by (simp add: Let_def)
  from Cons.IH[OF this] obtain evs ms where ih: "t' = (t @ [?ev]) @ evs" "extends (push c ?m) c' ms"
     "map called_tool evs = map (\<lambda>tc. Some (oa_name tc)) tcs"
     "map tool_result_id ms = map (\<lambda>tc. Some (oa_id tc)) tcs"
     "map kind_of ms = replicate (length tcs) KToolResult" by blast
  from ih(2) have "extends c c' (?m # ms)" by (rule extends_push)
  with ih show ?case by (intro exI[of _ "?ev # evs"] exI[of _ "?m # ms"]) simp
qed

lemma openai_tool_calls_preceded:
  "openai_tool_calls E tcs t c = (t', c', r) \<Longrightarrow>
   set (map oa_id tcs) \<subseteq> set (concat (map request_ids (conversationHistory c))) \<Longrightarrow>
   results_preceded [] (conversationHistory c) \<Longrightarrow>
   results_preceded [] (conversationHistory c')"
proof (induction tcs arbitrary: t c)
  case Nil
  then show ?case by auto
next
  case (Cons tc tcs)
  show ?case
  proof (cases "JSON_parse E (oa_arguments tc)")
    case (Inl e)
    with Cons.prems show ?thesis by auto
  next
    case args: (Inr toolArgs)
    show ?thesis
    proof (cases "mcp_callTool E t (mcp c) (oa_name tc) toolArgs")
      case (Inl e)
      with Cons.prems args show ?thesis by (auto simp add: Let_def)
    next
      case (Inr res)
      let ?c1 = "push c (ToolMessage res (oa_id tc))"
      from Cons.prems(1) args Inr have run:
        "openai_tool_calls E tcs (t @ [CallTool (mcp c) (oa_name tc) toolArgs (Inr res)]) ?c1 = (t', c', r)"
        by (simp add: Let_def)
      have a: "set (map oa_id tcs) \<subseteq> set (concat (map request_ids (conversationHistory ?c1)))"
        using Cons.prems(2) by (auto simp add: push_def)
      have b: "results_preceded [] (conversationHistory ?c1)"
        using Cons.prems(2,3) by (simp add: push_def results_preceded_append)
      from Cons.IH[OF run a b] show ?thesis .
    qed
  qed
qed

lemma anthropic_blocks_shape:
  "anthropic_blocks E bs t c acc = (t', c', r) \<Longrightarrow> round_shape c t t' c' (failure r)"
proof (induction bs arbitrary: t c acc)
  case Nil
  then show ?case by (auto intro: shape_refl)
next
  case (Cons b bs)
  show ?case
  proof (cases b)
    case (TextBlock s)
    with Cons show ?thesis by simp
  next
    case (OtherBlock k)
    with Cons show ?thesis by simp
  next
    case (ToolUseBlock i toolName toolArgs)
    note run0 = Cons.prems[unfolded ToolUseBlock]
    show ?thesis
    proof (cases "mcp_callTool E t (mcp c) toolName toolArgs")
      case (Inl e)
      with run0 have "t' = t @ [CallTool (mcp c) toolName toolArgs (Inl e)]" "c' = c" "r = Inl e"
        by (auto simp add: Let_def)
      then show ?thesis by (simp add: failure_def shape_tool_fail)
    next
      case (Inr res)
      let ?c1 = "push c (AnthropicToolResult i res)"
      let ?t1 = "t @ [CallTool (mcp c) toolName toolArgs (Inr res)]"
      let ?t2 = "?t1 @ [ModelCall anthropic (conversationHistory ?c1)]"
      have s1: "round_shape c t ?t1 ?c1 None" by (rule shape_tool_ok)
      show ?thesis
      proof (cases "anthropic_messages_create E ?t1 (conversationHistory ?c1) (tools ?c1)")
        case (Inl e)
        with run0 Inr have "t' = ?t2" "c' = ?c1" by (auto simp add: Let_def)
        with shape_trans[OF s1 shape_model] show ?thesis by simp
      next
        case fu: (Inr followup)
        let ?c2 = "push ?c1 (AnthropicAssistant followup)"
        from run0 Inr fu have run: "anthropic_blocks E bs ?t2 ?c2 (append_texts acc followup) = (t', c', r)"
          by (simp add: Let_def)
        have "round_shape c t ?t2 ?c2 None"
          by (rule shape_trans[OF s1 shape_trans[OF shape_model shape_push]])
        from this Cons.IH[OF run] show ?thesis by (rule shape_trans)
      qed
    qed
  qed
qed

lemma anthropic_blocks_no_tool:
  "block_ids bs = [] \<Longrightarrow> anthropic_blocks E bs t c acc = (t, c, Inr (append_texts acc bs))"
  by (induction bs arbitrary: acc rule: block_ids.induct) auto

lemma anthropic_blocks_one_tool:
  "block_ids bs = [i] \<Longrightarrow> anthropic_blocks E bs t c acc = (t', c', Inr x) \<Longrightarrow>
   \<exists>ev m3 m4. t' = t @ [ev, ModelCall anthropic (conversationHistory c @ [m3])] \<and>
      called_tool ev \<noteq> None \<and> extends c c' [m3, m4] \<and> kind_of m3 = KToolResult \<and>
      tool_result_id m3 = Some i \<and> kind_of m4 = KAssistant"
proof (induction bs arbitrary: acc)
  case Nil
  then show ?case by simp
next
  case (Cons b bs)
  show ?case
  proof (cases b)
    case (TextBlock s)
    with Cons show ?thesis by simp
  next
    case (OtherBlock k)
    with Cons show ?thesis by simp
  next
    case (ToolUseBlock j toolName toolArgs)
    with Cons.prems(1) have j: "j = i" and rest: "block_ids bs = []" by simp_all
    note run0 = Cons.prems(2)[unfolded ToolUseBlock]
    from run0 obtain res where res: "mcp_callTool E t (mcp c) toolName toolArgs = Inr res"
      by (cases "mcp_callTool E t (mcp c) toolName toolArgs") (auto simp add: Let_def)
    let ?c1 = "push c (AnthropicToolResult j res)"
    let ?t1 = "t @ [CallTool (mcp c) toolName toolArgs (Inr res)]"
    let ?t2 = "?t1 @ [ModelCall anthropic (conversationHistory ?c1)]"
    from run0 res obtain followup where
      fu: "anthropic_messages_create E ?t1 (conversationHistory ?c1) (tools ?c1) = Inr followup"
      by (cases "anthropic_messages_create E ?t1 (conversationHistory ?c1) (tools ?c1)")
         (auto simp add: Let_def)
    let ?c2 = "push ?c1 (AnthropicAssistant followup)"
    from run0 res fu have "anthropic_blocks E bs ?t2 ?c2 (append_texts acc followup) = (t', c', Inr x)"
      by (simp add: Let_def)
    with anthropic_blocks_no_tool[OF rest, of E ?t2 ?c2] have "t' = ?t2" "c' = ?c2" by simp_all
    then show ?thesis using j
      by (intro exI[of _ "CallTool (mcp c) toolName toolArgs (Inr res)"]
            exI[of _ "AnthropicToolResult j res"] exI[of _ "AnthropicAssistant followup"])
         (simp add: push_def extends_def)
  qed
qed

lemma processQueryWithAnthropic_shape:
  assumes "processQueryWithAnthropic E t c q = (t', c', r)"
  shows "round_shape c t t' c' (failure r)"
proof (cases "anthropic_sdk c")
  case None
  with assms show ?thesis by (auto simp add: processQueryWithAnthropic_def intro: shape_refl)
next
  case (Some u)
  let ?c1 = "push c (UserText q)"
  let ?t1 = "t @ [ModelCall anthropic (conversationHistory ?c1)]"
  have s1: "round_shape c t ?t1 ?c1 None"
    by (rule shape_trans[OF shape_push shape_model])
  show ?thesis
  proof (cases "anthropic_messages_create E t (conversationHistory ?c1) (tools ?c1)")
    case (Inl e)
    with assms Some have "t' = ?t1" "c' = ?c1"
      by (auto simp add: processQueryWithAnthropic_def Let_def)
    with shape_trans[OF s1 shape_refl] show ?thesis by simp
  next
    case (Inr response)
    with assms Some have
      "anthropic_blocks E response ?t1 (push ?c1 (AnthropicAssistant response)) [] = (t', c', r)"
      by (simp add: processQueryWithAnthropic_def Let_def)
    from shape_trans[OF shape_trans[OF s1 shape_push] anthropic_blocks_shape[OF this]]
    show ?thesis .
  qed
qed

lemma processQueryWithAnthropic_preceded:
  assumes "processQueryWithAnthropic E t c q = (t', c', r)"
      and "results_preceded [] (conversationHistory c)"
  shows "results_preceded [] (conversationHistory c')"
proof (cases "anthropic_sdk c")
  case None
  with assms show ?thesis by (auto simp add: processQueryWithAnthropic_def)
next
  case (Some u)
  let ?c1 = "push c (UserText q)"
  let ?t1 = "t @ [ModelCall anthropic (conversationHistory ?c1)]"
  have p1: "results_preceded [] (conversationHistory ?c1)"
    using assms(2) by (simp add: push_def results_preceded_append)
  show ?thesis
  proof (cases "anthropic_messages_create E t (conversationHistory ?c1) (tools ?c1)")
    case (Inl e)
    with assms Some have "c' = ?c1"
      by (auto simp add: processQueryWithAnthropic_def Let_def)
    with p1 show ?thesis by simp
  next
    case (Inr response)
    let ?c2 = "push ?c1 (AnthropicAssistant response)"
    from Inr assms Some have run:
      "anthropic_blocks E response ?t1 ?c2 [] = (t', c', r)"
      by (simp add: processQueryWithAnthropic_def Let_def)
    have a: "set (block_ids response) \<subseteq> set (concat (map request_ids (conversationHistory ?c2)))"
      by (simp add: push_def)
    have b: "results_preceded [] (conversationHistory ?c2)"
      using assms(2) by (simp add: push_def results_preceded_append)
    from anthropic_blocks_preceded[OF run a b] show ?thesis .
  qed
qed

lemma ollama_tool_calls_shape:
  "ollama_tool_calls E tcs t c = (t', c', r) \<Longrightarrow> round_shape c t t' c' r"
proof (induction tcs arbitrary: t c)
  case Nil
  then show ?case by (auto intro: shape_refl)
next
  case (Cons tc tcs)
  show ?case
  proof (cases "ol_tool_args E tc")
    case (Inl e)
    with Cons.prems show ?thesis by (auto intro: shape_refl)
  next
    case args: (Inr toolArgs)
    show ?thesis
    proof (cases "mcp_callTool E t (mcp c) (ol_name tc) toolArgs")
      case (Inl e)
      with Cons.prems args show ?thesis by (auto simp add: Let_def intro: shape_tool_fail)
    next
      case (Inr res)
      with Cons.prems args have
        "ollama_tool_calls E tcs (t @ [CallTool (mcp c) (ol_name tc) toolArgs (Inr res)])
           (push c (ToolMessage res (ol_tool_call_id tc))) = (t', c', r)" by (simp add: Let_def)
      from Cons.IH[OF this] shape_tool_ok show ?thesis by (rule shape_trans[rotated])
    qed
  qed
qed

lemma ollama_tool_calls_ok:
  "ollama_tool_calls E tcs t c = (t', c', None) \<Longrightarrow>
   \<exists>evs ms. t' = t @ evs \<and> extends c c' ms \<and>
     map called_tool evs = map (\<lambda>tc. Some (ol_name tc)) tcs \<and>
     map tool_result_id ms = map (\<lambda>tc. Some (ol_tool_call_id tc)) tcs \<and>
     map kind_of ms = replicate (length tcs) KToolResult"
proof (induction tcs arbitrary: t c)
  case Nil
  then show ?case by (auto intro: extends_refl)
next
  case (Cons tc tcs)
  from Cons.prems obtain toolArgs where args: "ol_tool_args E tc = Inr toolArgs"
    by (cases "ol_tool_args E tc") auto
  from Cons.prems args obtain res where res: "mcp_callTool E t (mcp c) (ol_name tc) toolArgs = Inr res"
    by (cases "mcp_callTool E t (mcp c) (ol_name tc) toolArgs") (auto simp add: Let_def)
  let ?ev = "CallTool (mcp c) (ol_name tc) toolArgs (Inr res)"
  let ?m = "ToolMessage res (ol_tool_call_id tc)"
  from Cons.prems args res have "ollama_tool_calls E tcs (t @ [?ev]) (push c ?m) = (t', c', None)"
    by (simp add: Let_def)
  from Cons.IH[OF this] obtain evs ms where ih: "t' = (t @ [?ev]) @ evs" "extends (push c ?m) c' ms"
     "map called_tool evs = map (\<lambda>tc. Some (ol_name tc)) tcs"
     "map tool_result_id ms = map (\<lambda>tc. Some (ol_tool_call_id tc)) tcs"
     "map kind_of ms = replicate (length tcs) KToolResult" by blast
  from ih(2) have "extends c c' (?m # ms)" by (rule extends_push)
  with ih show ?case by (intro exI[of _ "?ev # evs"] exI[of _ "?m # ms"]) simp
qed

lemma ollama_tool_calls_preceded:
  "ollama_tool_calls E tcs t c = (t', c', r) \<Longrightarrow>
   set (map ol_tool_call_id tcs) \<subseteq> set (concat (map request_ids (conversationHistory c))) \<Longrightarrow>
   results_preceded [] (conversationHistory c) \<Longrightarrow>
   results_preceded [] (conversationHistory c')"
proof (induction tcs arbitrary: t c)
  case Nil
  then show ?case by auto
next
  case (Cons tc tcs)
  show ?case
  proof (cases "ol_tool_args E tc")
    case (Inl e)
    with Cons.prems show ?thesis by auto
  next
    case args: (Inr toolArgs)
    show ?thesis
    proof (cases "mcp_callTool E t (mcp c) (ol_name tc) toolArgs")
      case (Inl e)
      with Cons.prems args show ?thesis by (auto simp add: Let_def)
    next
      case (Inr res)
      let ?c1 = "push c (ToolMessage res (ol_tool_call_id tc))"
      from Cons.prems(1) args Inr have run:
        "ollama_tool_calls E tcs (t @ [CallTool (mcp c) (ol_name tc) toolArgs (Inr res)]) ?c1 = (t', c', r)"
        by (simp add: Let_def)
      have a: "set (map ol_tool_call_id tcs) \<subseteq> set (concat (map request_ids (conversationHistory ?c1)))"
        using Cons.prems(2) by (auto simp add: push_def)
      have b: "results_preceded [] (conversationHistory ?c1)"
        using Cons.prems(2,3) by (simp add: push_def results_preceded_append)
      from Cons.IH[OF run a b] show ?thesis .
    qed
  qed
qed

lemma processQueryWithOpenAI_cases [consumes 1, case_names uninit failed plain tool_failed followup_failed complete]:
  assumes run: "processQueryWithOpenAI E t c q = (t', c', r)"
  obtains
    (uninit) e where "r = Inl e" "t' = t" "c' = c" "openai_sdk c = None"
  | (failed) e where "r = Inl e"
      "t' = t @ [ModelCall openai (conversationHistory c @ [UserText q])]"
      "c' = push c (UserText q)"
      "openai_chat_completions_create E t (conversationHistory c @ [UserText q])
         (tools_arg c) \<in> {Inl e, Inr []}"
  | (plain) msg rest where
      "openai_chat_completions_create E t (conversationHistory c @ [UserText q])
         (tools_arg c) = Inr (msg # rest)"
      "oa_tool_calls msg = None \<or> oa_tool_calls msg = Some []"
      "t' = t @ [ModelCall openai (conversationHistory c @ [UserText q])]"
      "c' = push (push c (UserText q)) (OpenAIAssistant (oa_content msg) (oa_tool_calls msg))"
      "r = Inr (or_empty (oa_content msg))"
  | (tool_failed) msg rest tcs e where
      "openai_chat_completions_create E t (conversationHistory c @ [UserText q])
         (tools_arg c) = Inr (msg # rest)"
      "oa_tool_calls msg = Some tcs" "tcs \<noteq> []"
      "openai_tool_calls E tcs (t @ [ModelCall openai (conversationHistory c @ [UserText q])])
         (push (push c (UserText q)) (OpenAIAssistant (oa_content msg) (Some tcs))) = (t', c', Some e)"
      "r = Inl e"
  | (followup_failed) msg rest tcs t2 e where
      "openai_chat_completions_create E t (conversationHistory c @ [UserText q])
         (tools_arg c) = Inr (msg # rest)"
      "oa_tool_calls msg = Some tcs" "tcs \<noteq> []"
      "openai_tool_calls E tcs (t @ [ModelCall openai (conversationHistory c @ [UserText q])])
         (push (push c (UserText q)) (OpenAIAssistant (oa_content msg) (Some tcs))) = (t2, c', None)"
      "t' = t2 @ [ModelCall openai (conversationHistory c')]"
      "r = Inl e"
  | (complete) msg rest tcs t2 c3 fm where
      "openai_chat_completions_create E t (conversationHistory c @ [UserText q])
         (tools_arg c) = Inr (msg # rest)"
      "oa_tool_calls msg = Some tcs" "tcs \<noteq> []"
      "openai_tool_calls E tcs (t @ [ModelCall openai (conversationHistory c @ [UserText q])])
         (push (push c (UserText q)) (OpenAIAssistant (oa_content msg) (Some tcs))) = (t2, c3, None)"
      "t' = t2 @ [ModelCall openai (conversationHistory c3)]"
      "c' = push c3 (OpenAIAssistant (oa_content fm) (oa_tool_calls fm))"
      "r = Inr (or_empty (oa_content fm))"
proof (cases "openai_sdk c")
  case None
  with run uninit show thesis by (auto simp add: processQueryWithOpenAI_def)
next
  case (Some u)
  let ?c1 = "push c (UserText q)"
  let ?h1 = "conversationHistory c @ [UserText q]"
  let ?t1 = "t @ [ModelCall openai ?h1]"
  have h1: "conversationHistory ?c1 = ?h1" "tools_arg ?c1 = tools_arg c"
    by (simp_all add: push_def tools_arg_def)
  note defs = processQueryWithOpenAI_def Let_def h1 first_choice_def
  show thesis
  proof (cases "openai_chat_completions_create E t ?h1 (tools_arg c)")
    case (Inl e)
    with run Some have "r = Inl e" "t' = ?t1" "c' = ?c1" by (auto simp add: defs)
    with Inl failed show thesis by simp
  next
    case (Inr choices)
    show thesis
    proof (cases choices)
      case Nil
      with run Some Inr have "r = Inl (new_Error ''Cannot read properties of undefined'')"
        "t' = ?t1" "c' = ?c1" by (auto simp add: defs)
      with Inr Nil failed show thesis by simp
    next
      case (Cons msg rest)
      note first = Inr[unfolded Cons]
      let ?c2 = "push ?c1 (OpenAIAssistant (oa_content msg) (oa_tool_calls msg))"
      show thesis
      proof (cases "oa_tool_calls msg = None \<or> oa_tool_calls msg = Some []")
        case True
        with run Some first have "t' = ?t1" "c' = ?c2" "r = Inr (or_empty (oa_content msg))"
          by (auto simp add: defs)
        with first True plain show thesis by blast
      next
        case False
        then obtain tcs where tcs: "oa_tool_calls msg = Some tcs" "tcs \<noteq> []" by auto
        obtain t2 c3 f where loop: "openai_tool_calls E tcs ?t1
           (push ?c1 (OpenAIAssistant (oa_content msg) (Some tcs))) = (t2, c3, f)"
          by (cases "openai_tool_calls E tcs ?t1
           (push ?c1 (OpenAIAssistant (oa_content msg) (Some tcs)))") auto
        show thesis
        proof (cases f)
          case (Some e)
          with run \<open>openai_sdk c = Some u\<close> first tcs loop
          have "t' = t2" "c' = c3" "r = Inl e" by (auto simp add: defs)
          with first tcs loop Some tool_failed show thesis by blast
        next
          case None
          let ?t3 = "t2 @ [ModelCall openai (conversationHistory c3)]"
          show thesis
          proof (cases "openai_chat_completions_create E t2 (conversationHistory c3) (tools_arg c3)")
            case (Inl e)
            with run \<open>openai_sdk c = Some u\<close> first tcs loop None
            have "t' = ?t3" "c' = c3" "r = Inl e" by (auto simp add: defs)
            with first tcs loop None followup_failed show thesis by blast
          next
            case fr: (Inr fchoices)
            show thesis
            proof (cases fchoices)
              case Nil
              with run \<open>openai_sdk c = Some u\<close> first tcs loop None fr
              have "t' = ?t3" "c' = c3" "r = Inl (new_Error ''Cannot read properties of undefined'')"
                by (auto simp add: defs)
              with first tcs loop None followup_failed show thesis by blast
            next
              case (Cons fm frest)
              with run \<open>openai_sdk c = Some u\<close> first tcs loop None fr
              have "t' = ?t3" "c' = push c3 (OpenAIAssistant (oa_content fm) (oa_tool_calls fm))"
                "r = Inr (or_empty (oa_content fm))"
                by (auto simp add: defs)
              with first tcs loop None complete show thesis by blast
            qed
          qed
        qed
      qed
    qed
  qed
qed

lemma processQueryWithOllama_cases [consumes 1, case_names uninit failed plain tool_failed followup_failed complete]:
  assumes run: "processQueryWithOllama E t c q = (t', c', r)"
  obtains
    (uninit) e where "r = Inl e" "t' = t" "c' = c" "ollama_sdk c = None"
  | (failed) e where "r = Inl e"
      "t' = t @ [ModelCall ollama (conversationHistory c @ [UserText q])]"
      "c' = push c (UserText q)"
      "ollama_chat E t (conversationHistory c @ [UserText q]) (tools_arg c) = Inl e"
  | (plain) msg where
      "ollama_chat E t (conversationHistory c @ [UserText q]) (tools_arg c) = Inr msg"
      "ol_tool_calls msg = None \<or> ol_tool_calls msg = Some []"
      "t' = t @ [ModelCall ollama (conversationHistory c @ [UserText q])]"
      "c' = push (push c (UserText q)) (OllamaAssistant (ol_content msg) (ol_tool_calls msg))"
      "r = Inr (ol_content msg)"
  | (tool_failed) msg tcs e where
      "ollama_chat E t (conversationHistory c @ [UserText q]) (tools_arg c) = Inr msg"
      "ol_tool_calls msg = Some tcs" "tcs \<noteq> []"
      "ollama_tool_calls E tcs (t @ [ModelCall ollama (conversationHistory c @ [UserText q])])
         (push (push c (UserText q)) (OllamaAssistant (ol_content msg) (Some tcs))) = (t', c', Some e)"
      "r = Inl e"
  | (followup_failed) msg tcs t2 e where
      "ollama_chat E t (conversationHistory c @ [UserText q]) (tools_arg c) = Inr msg"
      "ol_tool_calls msg = Some tcs" "tcs \<noteq> []"
      "ollama_tool_calls E tcs (t @ [ModelCall ollama (conversationHistory c @ [UserText q])])
         (push (push c (UserText q)) (OllamaAssistant (ol_content msg) (Some tcs))) = (t2, c', None)"
      "t' = t2 @ [ModelCall ollama (conversationHistory c')]"
      "r = Inl e"
  | (complete) msg tcs t2 c3 fm where
      "ollama_chat E t (conversationHistory c @ [UserText q]) (tools_arg c) = Inr msg"
      "ol_tool_calls msg = Some tcs" "tcs \<noteq> []"
      "ollama_tool_calls E tcs (t @ [ModelCall ollama (conversationHistory c @ [UserText q])])
         (push (push c (UserText q)) (OllamaAssistant (ol_content msg) (Some tcs))) = (t2, c3, None)"
      "t' = t2 @ [ModelCall ollama (conversationHistory c3)]"
      "c' = push c3 (OllamaAssistant (ol_content fm) (ol_tool_calls fm))"
      "r = Inr (ol_content fm)"
proof (cases "ollama_sdk c")
  case None
  with run uninit show thesis by (auto simp add: processQueryWithOllama_def)
next
  case (Some u)
  let ?c1 = "push c (UserText q)"
  let ?h1 = "conversationHistory c @ [UserText q]"
  let ?t1 = "t @ [ModelCall ollama ?h1]"
  have h1: "conversationHistory ?c1 = ?h1" "tools_arg ?c1 = tools_arg c"
    by (simp_all add: push_def tools_arg_def)
  note defs = processQueryWithOllama_def Let_def h1
  show thesis
  proof (cases "ollama_chat E t ?h1 (tools_arg c)")
    case (Inl e)
    with run Some have "r = Inl e" "t' = ?t1" "c' = ?c1" by (auto simp add: defs)
    with Inl failed show thesis by simp
  next
    case first: (Inr msg)
    let ?c2 = "push ?c1 (OllamaAssistant (ol_content msg) (ol_tool_calls msg))"
    show thesis
    proof (cases "ol_tool_calls msg = None \<or> ol_tool_calls msg = Some []")
      case True
      with run Some first have "t' = ?t1" "c' = ?c2" "r = Inr (ol_content msg)"
        by (auto simp add: defs)
      with first True plain show thesis by blast
    next
      case False
      then obtain tcs where tcs: "ol_tool_calls msg = Some tcs" "tcs \<noteq> []" by auto
      obtain t2 c3 f where loop: "ollama_tool_calls E tcs ?t1
         (push ?c1 (OllamaAssistant (ol_content msg) (Some tcs))) = (t2, c3, f)"
        by (cases "ollama_tool_calls E tcs ?t1
         (push ?c1 (OllamaAssistant (ol_content msg) (Some tcs)))") auto
      show thesis
      proof (cases f)
        case (Some e)
        with run \<open>ollama_sdk c = Some u\<close> first tcs loop
        have "t' = t2" "c' = c3" "r = Inl e" by (auto simp add: defs)
        with first tcs loop Some tool_failed show thesis by blast
      next
        case None
        let ?t3 = "t2 @ [ModelCall ollama (conversationHistory c3)]"
        show thesis
        proof (cases "ollama_chat E t2 (conversationHistory c3) (tools_arg c3)")
          case (Inl e)
          with run \<open>ollama_sdk c = Some u\<close> first tcs loop None
          have "t' = ?t3" "c' = c3" "r = Inl e" by (auto simp add: defs)
          with first tcs loop None followup_failed show thesis by blast
        next
          case fr: (Inr fm)
          with run \<open>ollama_sdk c = Some u\<close> first tcs loop None
          have "t' = ?t3" "c' = push c3 (OllamaAssistant (ol_content fm) (ol_tool_calls fm))"
            "r = Inr (ol_content fm)"
            by (auto simp add: defs)
          with first tcs loop None complete show thesis by blast
        qed
      qed
    qed
  qed
qed

lemma processQueryWithAnthropic_cases [consumes 1, case_names uninit failed blocks]:
  assumes run: "processQueryWithAnthropic E t c q = (t', c', r)"
  obtains
    (uninit) e where "r = Inl e" "t' = t" "c' = c" "anthropic_sdk c = None"
  | (failed) e where "r = Inl e"
      "t' = t @ [ModelCall anthropic (conversationHistory c @ [UserText q])]"
      "c' = push c (UserText q)"
      "anthropic_messages_create E t (conversationHistory c @ [UserText q]) (tools c) = Inl e"
  | (blocks) response where
      "anthropic_messages_create E t (conversationHistory c @ [UserText q]) (tools c) = Inr response"
      "anthropic_blocks E response (t @ [ModelCall anthropic (conversationHistory c @ [UserText q])])
         (push (push c (UserText q)) (AnthropicAssistant response)) [] = (t', c', r)"
proof (cases "anthropic_sdk c")
  case None
  with run uninit show thesis by (auto simp add: processQueryWithAnthropic_def)
next
  case (Some u)
  have h1: "conversationHistory (push c (UserText q)) = conversationHistory c @ [UserText q]"
    "tools (push c (UserText q)) = tools c"
    by (simp_all add: push_def)
  note defs = processQueryWithAnthropic_def Let_def h1
  show thesis
  proof (cases "anthropic_messages_create E t (conversationHistory c @ [UserText q]) (tools c)")
    case (Inl e)
    with run Some have "r = Inl e" "c' = push c (UserText q)"
      "t' = t @ [ModelCall anthropic (conversationHistory c @ [UserText q])]"
      by (auto simp add: defs)
    with Inl failed show thesis by simp
  next
    case (Inr response)
    with run Some have
      "anthropic_blocks E response (t @ [ModelCall anthropic (conversationHistory c @ [UserText q])])
         (push (push c (UserText q)) (AnthropicAssistant response)) [] = (t', c', r)"
      by (simp add: defs)
    with Inr blocks show thesis by blast
  qed
qed

lemma shape_user_call:
  "round_shape c t (t @ [ModelCall p h]) (push c m) None"
  by (rule shape_trans[OF shape_push shape_model])

lemma processQueryWithOpenAI_shape:
  assumes "processQueryWithOpenAI E t c q = (t', c', r)"
  shows "round_shape c t t' c' (failure r)"
  using assms
proof (cases rule: processQueryWithOpenAI_cases)
  case (uninit e)
  then show ?thesis by (simp add: shape_refl)
next
  case (failed e)
  then show ?thesis using shape_trans[OF shape_user_call shape_refl] by simp
next
  case (plain msg rest)
  then show ?thesis using shape_trans[OF shape_user_call shape_push] by simp
next
  case (tool_failed msg rest tcs e)
  from shape_trans[OF shape_trans[OF shape_user_call shape_push] openai_tool_calls_shape[OF tool_failed(4)]]
  show ?thesis using tool_failed(5) by (simp add: failure_def)
next
  case (followup_failed msg rest tcs t2 e)
  from shape_trans[OF shape_trans[OF shape_user_call shape_push] openai_tool_calls_shape[OF followup_failed(4)]]
  have "round_shape c t t2 c' None" .
  from shape_trans[OF this shape_model] show ?thesis using followup_failed(5) by simp
next
  case (complete msg rest tcs t2 c3 fm)
  from shape_trans[OF shape_trans[OF shape_user_call shape_push] openai_tool_calls_shape[OF complete(4)]]
  have "round_shape c t t2 c3 None" .
  from shape_trans[OF this shape_trans[OF shape_model shape_push]] show ?thesis
    using complete(5,6) by simp
qed

lemma processQueryWithOllama_shape:
  assumes "processQueryWithOllama E t c q = (t', c', r)"
  shows "round_shape c t t' c' (failure r)"
  using assms
proof (cases rule: processQueryWithOllama_cases)
  case (uninit e)
  then show ?thesis by (simp add: shape_refl)
next
  case (failed e)
  then show ?thesis using shape_trans[OF shape_user_call shape_refl] by simp
next
  case (plain msg)
  then show ?thesis using shape_trans[OF shape_user_call shape_push] by simp
next
  case (tool_failed msg tcs e)
  from shape_trans[OF shape_trans[OF shape_user_call shape_push] ollama_tool_calls_shape[OF tool_failed(4)]]
  show ?thesis using tool_failed(5) by (simp add: failure_def)
next
  case (followup_failed msg tcs t2 e)
  from shape_trans[OF shape_trans[OF shape_user_call shape_push] ollama_tool_calls_shape[OF followup_failed(4)]]
  have "round_shape c t t2 c' None" .
  from shape_trans[OF this shape_model] show ?thesis using followup_failed(5) by simp
next
  case (complete msg tcs t2 c3 fm)
  from shape_trans[OF shape_trans[OF shape_user_call shape_push] ollama_tool_calls_shape[OF complete(4)]]
  have "round_shape c t t2 c3 None" .
  from shape_trans[OF this shape_trans[OF shape_model shape_push]] show ?thesis
    using complete(5,6) by simp
qed

lemma processQuery_shape:
  assumes "processQuery E t c q = (t', c', r)"
  shows "round_shape c t t' c' (failure r)"
proof (cases "provider c")
  case anthropic
  with assms show ?thesis by (simp add: processQuery_def processQueryWithAnthropic_shape)
next
  case openai
  with assms show ?thesis by (simp add: processQuery_def processQueryWithOpenAI_shape)
next
  case ollama
  with assms show ?thesis by (simp add: processQuery_def processQueryWithOllama_shape)
qed

lemma preceded_push:
  "results_preceded [] (conversationHistory c) \<Longrightarrow>
   (case tool_result_id m of None \<Rightarrow> True
    | Some i \<Rightarrow> i \<in> set (concat (map request_ids (conversationHistory c)))) \<Longrightarrow>
   results_preceded [] (conversationHistory (push c m))"
  by (simp add: push_def results_preceded_append)

lemma preceded_user_assistant:
  assumes "results_preceded [] (conversationHistory c)" "tool_result_id m = None"
  shows "results_preceded [] (conversationHistory (push (push c (UserText q)) m))"
  using assms by (simp add: push_def results_preceded_append)

lemma processQueryWithOpenAI_preceded:
  assumes "processQueryWithOpenAI E t c q = (t', c', r)"
      and p: "results_preceded [] (conversationHistory c)"
  shows "results_preceded [] (conversationHistory c')"
  using assms(1)
proof (cases rule: processQueryWithOpenAI_cases)
  case (uninit e)
  with p show ?thesis by simp
next
  case (failed e)
  with p show ?thesis by (simp add: preceded_push)
next
  case (plain msg rest)
  with p show ?thesis by (simp add: preceded_user_assistant)
next
  case (tool_failed msg rest tcs e)
  show ?thesis
    by (rule openai_tool_calls_preceded[OF tool_failed(4)])
       (simp_all add: p preceded_user_assistant, simp add: push_def)
next
  case (followup_failed msg rest tcs t2 e)
  show ?thesis
    by (rule openai_tool_calls_preceded[OF followup_failed(4)])
       (simp_all add: p preceded_user_assistant, simp add: push_def)
next
  case (complete msg rest tcs t2 c3 fm)
  have "results_preceded [] (conversationHistory c3)"
    by (rule openai_tool_calls_preceded[OF complete(4)])
       (simp_all add: p preceded_user_assistant, simp add: push_def)
  with complete(6) show ?thesis by (simp add: preceded_push)
qed

lemma processQueryWithOllama_preceded:
  assumes "processQueryWithOllama E t c q = (t', c', r)"
      and p: "results_preceded [] (conversationHistory c)"
  shows "results_preceded [] (conversationHistory c')"
  using assms(1)
proof (cases rule: processQueryWithOllama_cases)
  case (uninit e)
  with p show ?thesis by simp
next
  case (failed e)
  with p show ?thesis by (simp add: preceded_push)
next
  case (plain msg)
  with p show ?thesis by (simp add: preceded_user_assistant)
next
  case (tool_failed msg tcs e)
  show ?thesis
    by (rule ollama_tool_calls_preceded[OF tool_failed(4)])
       (simp_all add: p preceded_user_assistant, simp add: push_def)
next
  case (followup_failed msg tcs t2 e)
  show ?thesis
    by (rule ollama_tool_calls_preceded[OF followup_failed(4)])
       (simp_all add: p preceded_user_assistant, simp add: push_def)
next
  case (complete msg tcs t2 c3 fm)
  have "results_preceded [] (conversationHistory c3)"
    by (rule ollama_tool_calls_preceded[OF complete(4)])
       (simp_all add: p preceded_user_assistant, simp add: push_def)
  with complete(6) show ?thesis by (simp add: preceded_push)
qed

lemma processQuery_preceded:
  assumes "processQuery E t c q = (t', c', r)"
      and "results_preceded [] (conversationHistory c)"
  shows "results_preceded [] (conversationHistory c')"
proof (cases "provider c")
  case anthropic
  with assms show ?thesis by (simp add: processQuery_def processQueryWithAnthropic_preceded)
next
  case openai
  with assms show ?thesis by (simp add: processQuery_def processQueryWithOpenAI_preceded)
next
  case ollama
  with assms show ?thesis by (simp add: processQuery_def processQueryWithOllama_preceded)
qed

section \<open>The registry invariant\<close>

lemma set_update_distinct:
  "distinct (map fst xs) \<Longrightarrow>
   set (AList.update k v xs) = insert (k, v) {p \<in> set xs. fst p \<noteq> k}"
  by (induction xs) (auto simp add: rev_image_eqI)

lemma set_delete: "set (AList.delete k xs) = {p \<in> set xs. fst p \<noteq> k}"
  by (auto simp add: AList.delete_eq)

lemma evolves_refl: "evolves s s"
  unfolding evolves_def by (auto intro: exI[of _ "[]"])

lemma evolves_trans:
  assumes "evolves s s1" "evolves s1 s2"
  shows "evolves s s2"
proof -
  from assms(1) obtain evs1 where a: "clients s \<le> clients s1" "trace s1 = trace s @ evs1"
    "\<forall>n. Close n \<in> set evs1 \<longrightarrow> n < clients s \<longrightarrow> (\<exists>p \<in> set (sessions s). mcp (client_of p) = n)"
    and ag: "\<forall>p' \<in> set (sessions s1). mcp (client_of p') < clients s \<longrightarrow>
         (\<exists>p \<in> set (sessions s). mcp (client_of p) = mcp (client_of p') \<and>
            prefix (conversationHistory (client_of p)) (conversationHistory (client_of p')))"
    unfolding evolves_def by blast
  from assms(2) obtain evs2 where b: "clients s1 \<le> clients s2" "trace s2 = trace s1 @ evs2"
    "\<forall>n. Close n \<in> set evs2 \<longrightarrow> n < clients s1 \<longrightarrow> (\<exists>p \<in> set (sessions s1). mcp (client_of p) = n)"
    and bg: "\<forall>p' \<in> set (sessions s2). mcp (client_of p') < clients s1 \<longrightarrow>
         (\<exists>p \<in> set (sessions s1). mcp (client_of p) = mcp (client_of p') \<and>
            prefix (conversationHistory (client_of p)) (conversationHistory (client_of p')))"
    unfolding evolves_def by blast
  have 1: "clients s \<le> clients s2" using a(1) b(1) by simp
  have 2: "trace s2 = trace s @ (evs1 @ evs2)" using a(2) b(2) by simp
  have 3: "\<forall>n. Close n \<in> set (evs1 @ evs2) \<longrightarrow> n < clients s \<longrightarrow>
      (\<exists>p \<in> set (sessions s). mcp (client_of p) = n)"
  proof (intro allI impI)
    fix n assume n: "Close n \<in> set (evs1 @ evs2)" "n < clients s"
    show "\<exists>p \<in> set (sessions s). mcp (client_of p) = n"
    proof (cases "Close n \<in> set evs1")
      case True
      with a(3) n show ?thesis by blast
    next
      case False
      with n have "Close n \<in> set evs2" by simp
      with b(3) n a(1) obtain p1 where "p1 \<in> set (sessions s1)" "mcp (client_of p1) = n"
        by force
      with ag n(2) show ?thesis by force
    qed
  qed
  have 4: "\<forall>p' \<in> set (sessions s2). mcp (client_of p') < clients s \<longrightarrow>
         (\<exists>p \<in> set (sessions s). mcp (client_of p) = mcp (client_of p') \<and>
            prefix (conversationHistory (client_of p)) (conversationHistory (client_of p')))"
  proof (intro ballI impI)
    fix p2 assume p2: "p2 \<in> set (sessions s2)" "mcp (client_of p2) < clients s"
    with bg a(1) obtain p1 where p1: "p1 \<in> set (sessions s1)" "mcp (client_of p1) = mcp (client_of p2)"
      "prefix (conversationHistory (client_of p1)) (conversationHistory (client_of p2))" by force
    with ag p2(2) obtain p where "p \<in> set (sessions s)" "mcp (client_of p) = mcp (client_of p1)"
      "prefix (conversationHistory (client_of p)) (conversationHistory (client_of p1))" by force
    with p1 show "\<exists>p \<in> set (sessions s). mcp (client_of p) = mcp (client_of p2) \<and>
            prefix (conversationHistory (client_of p)) (conversationHistory (client_of p2))"
      by (intro bexI[of _ p]) (auto intro: prefix_order.trans)
  qed
  show ?thesis unfolding evolves_def using 1 2 3 4 by blast
qed

text \<open>The registry steps: a logged event, a replaced entry, a new entry, a deleted entry.\<close>

lemma step_events:
  assumes "wf_server s" "\<forall>n. Close n \<notin> set evs"
  shows "wf_server (s\<lparr>trace := trace s @ evs\<rparr>) \<and> evolves s (s\<lparr>trace := trace s @ evs\<rparr>)"
  using assms unfolding wf_server_def evolves_def by auto

lemma step_replace:
  assumes wf: "wf_server s" and k: "map_of (sessions s) k = Some sd"
      and m: "mcp (mcpClient sd') = mcp (mcpClient sd)"
      and pre: "prefix (conversationHistory (mcpClient sd)) (conversationHistory (mcpClient sd'))"
      and rp: "results_preceded [] (conversationHistory (mcpClient sd'))"
      and ev: "\<forall>n. Close n \<notin> set evs"
  shows "wf_server (s\<lparr>trace := trace s @ evs, sessions := AList.update k sd' (sessions s)\<rparr>) \<and>
         evolves s (s\<lparr>trace := trace s @ evs, sessions := AList.update k sd' (sessions s)\<rparr>)"
proof -
  let ?s' = "s\<lparr>trace := trace s @ evs, sessions := AList.update k sd' (sessions s)\<rparr>"
  from wf have d: "distinct (map fst (sessions s))" by (simp add: wf_server_def)
  from d k have mem: "(k, sd) \<in> set (sessions s)" by simp
  have S: "set (sessions ?s') = insert (k, sd') {p \<in> set (sessions s). fst p \<noteq> k}"
    using d by (simp add: set_update_distinct)
  have d': "distinct (map fst (sessions ?s'))" using d by (simp add: distinct_update)
  have w: "wf_server ?s'"
    unfolding wf_server_def
  proof (intro conjI)
    show "distinct (map fst (sessions ?s'))" by (rule d')
    show "\<forall>p\<in>set (sessions ?s'). mcp (client_of p) < clients ?s' \<and>
        results_preceded [] (conversationHistory (client_of p))"
      using wf mem m rp unfolding S wf_server_def by (auto simp add: client_of_def)
    show "\<forall>p\<in>set (sessions ?s'). \<forall>p'\<in>set (sessions ?s').
        mcp (client_of p) = mcp (client_of p') \<longrightarrow> p = p'"
    proof (intro ballI impI)
      fix p p' assume a: "p \<in> set (sessions ?s')" "p' \<in> set (sessions ?s')"
        "mcp (client_of p) = mcp (client_of p')"
      from wf have inj: "\<And>a b. a \<in> set (sessions s) \<Longrightarrow> b \<in> set (sessions s) \<Longrightarrow>
          mcp (client_of a) = mcp (client_of b) \<Longrightarrow> a = b" unfolding wf_server_def by blast
      have km: "mcp (client_of (k, sd')) = mcp (client_of (k, sd))" using m by (simp add: client_of_def)
      show "p = p'"
      proof (cases "p = (k, sd')")
        case True
        show ?thesis
        proof (cases "p' = (k, sd')")
          case True
          with \<open>p = (k, sd')\<close> show ?thesis by simp
        next
          case False
          with a(2) have p': "p' \<in> set (sessions s)" "fst p' \<noteq> k" unfolding S by auto
          from a(3) True km have "mcp (client_of (k, sd)) = mcp (client_of p')" by simp
          from inj[OF mem p'(1) this] p'(2) show ?thesis by auto
        qed
      next
        case False
        with a(1) have p: "p \<in> set (sessions s)" "fst p \<noteq> k" unfolding S by auto
        show ?thesis
        proof (cases "p' = (k, sd')")
          case True
          from a(3) True km have "mcp (client_of p) = mcp (client_of (k, sd))" by simp
          from inj[OF p(1) mem this] p(2) show ?thesis by auto
        next
          case False
          with a(2) have "p' \<in> set (sessions s)" unfolding S by auto
          from inj[OF p(1) this a(3)] show ?thesis .
        qed
      qed
    qed
    show "\<forall>n. Close n \<in> set (trace ?s') \<longrightarrow> n < clients ?s'"
      using wf ev unfolding wf_server_def by auto
  qed
  have e: "evolves s ?s'"
    unfolding evolves_def
  proof (intro conjI)
    show "clients s \<le> clients ?s'" by simp
    show "\<exists>evs. trace ?s' = trace s @ evs \<and>
       (\<forall>n. Close n \<in> set evs \<longrightarrow> n < clients s \<longrightarrow> (\<exists>p\<in>set (sessions s). mcp (client_of p) = n))"
      using ev by (intro exI[of _ evs]) simp
    show "\<forall>p'\<in>set (sessions ?s'). mcp (client_of p') < clients s \<longrightarrow>
       (\<exists>p\<in>set (sessions s). mcp (client_of p) = mcp (client_of p') \<and>
          prefix (conversationHistory (client_of p)) (conversationHistory (client_of p')))"
    proof (intro ballI impI)
      fix p' assume a: "p' \<in> set (sessions ?s')"
      show "\<exists>p\<in>set (sessions s). mcp (client_of p) = mcp (client_of p') \<and>
          prefix (conversationHistory (client_of p)) (conversationHistory (client_of p'))"
      proof (cases "p' = (k, sd')")
        case True
        with mem m pre show ?thesis by (intro bexI[of _ "(k, sd)"]) (simp_all add: client_of_def)
      next
        case False
        with a have "p' \<in> set (sessions s)" unfolding S by auto
        then show ?thesis by (intro bexI[of _ p']) simp_all
      qed
    qed
  qed
  from w e show ?thesis ..
qed

lemma step_new:
  assumes wf: "wf_server s"
      and m: "mcp (mcpClient sd') = clients s"
      and rp: "results_preceded [] (conversationHistory (mcpClient sd'))"
      and ev: "\<forall>n. Close n \<notin> set evs"
  shows "wf_server (s\<lparr>clients := clients s + 1, trace := trace s @ evs,
            sessions := AList.update k sd' (sessions s)\<rparr>) \<and>
         evolves s (s\<lparr>clients := clients s + 1, trace := trace s @ evs,
            sessions := AList.update k sd' (sessions s)\<rparr>)"
proof -
  let ?s' = "s\<lparr>clients := clients s + 1, trace := trace s @ evs,
            sessions := AList.update k sd' (sessions s)\<rparr>"
  from wf have d: "distinct (map fst (sessions s))" by (simp add: wf_server_def)
  have S: "set (sessions ?s') = insert (k, sd') {p \<in> set (sessions s). fst p \<noteq> k}"
    using d by (simp add: set_update_distinct)
  from wf have lt: "\<And>p. p \<in> set (sessions s) \<Longrightarrow> mcp (client_of p) < clients s"
    unfolding wf_server_def by blast
  have km: "mcp (client_of (k, sd')) = clients s" using m by (simp add: client_of_def)
  have w: "wf_server ?s'"
    unfolding wf_server_def
  proof (intro conjI)
    show "distinct (map fst (sessions ?s'))" using d by (simp add: distinct_update)
    show "\<forall>p\<in>set (sessions ?s'). mcp (client_of p) < clients ?s' \<and>
        results_preceded [] (conversationHistory (client_of p))"
      using wf m rp unfolding S wf_server_def by (auto simp add: client_of_def less_SucI)
    show "\<forall>p\<in>set (sessions ?s'). \<forall>p'\<in>set (sessions ?s').
        mcp (client_of p) = mcp (client_of p') \<longrightarrow> p = p'"
    proof (intro ballI impI)
      fix p p' assume a: "p \<in> set (sessions ?s')" "p' \<in> set (sessions ?s')"
        "mcp (client_of p) = mcp (client_of p')"
      from wf have inj: "\<And>a b. a \<in> set (sessions s) \<Longrightarrow> b \<in> set (sessions s) \<Longrightarrow>
          mcp (client_of a) = mcp (client_of b) \<Longrightarrow> a = b" unfolding wf_server_def by blast
      show "p = p'"
      proof (cases "p = (k, sd')")
        case True
        show ?thesis
        proof (cases "p' = (k, sd')")
          case True
          with \<open>p = (k, sd')\<close> show ?thesis by simp
        next
          case False
          with a(2) have "p' \<in> set (sessions s)" unfolding S by auto
          from lt[OF this] a(3) True km show ?thesis by simp
        qed
      next
        case False
        with a(1) have p: "p \<in> set (sessions s)" unfolding S by auto
        show ?thesis
        proof (cases "p' = (k, sd')")
          case True
          from lt[OF p] a(3) True km show ?thesis by simp
        next
          case False
          with a(2) have "p' \<in> set (sessions s)" unfolding S by auto
          from inj[OF p this a(3)] show ?thesis .
        qed
      qed
    qed
    show "\<forall>n. Close n \<in> set (trace ?s') \<longrightarrow> n < clients ?s'"
      using wf ev unfolding wf_server_def by (auto simp add: less_SucI)
  qed
  have e: "evolves s ?s'"
    unfolding evolves_def
  proof (intro conjI)
    show "clients s \<le> clients ?s'" by simp
    show "\<exists>evs. trace ?s' = trace s @ evs \<and>
       (\<forall>n. Close n \<in> set evs \<longrightarrow> n < clients s \<longrightarrow> (\<exists>p\<in>set (sessions s). mcp (client_of p) = n))"
      using ev by (intro exI[of _ evs]) simp
    show "\<forall>p'\<in>set (sessions ?s'). mcp (client_of p') < clients s \<longrightarrow>
       (\<exists>p\<in>set (sessions s). mcp (client_of p) = mcp (client_of p') \<and>
          prefix (conversationHistory (client_of p)) (conversationHistory (client_of p')))"
    proof (intro ballI impI)
      fix p' assume a: "p' \<in> set (sessions ?s')" "mcp (client_of p') < clients s"
      with km have "p' \<noteq> (k, sd')" by auto
      with a have "p' \<in> set (sessions s)" unfolding S by auto
      then show "\<exists>p\<in>set (sessions s). mcp (client_of p) = mcp (client_of p') \<and>
          prefix (conversationHistory (client_of p)) (conversationHistory (client_of p'))"
        by (intro bexI[of _ p']) simp_all
    qed
  qed
  from w e show ?thesis ..
qed

lemma step_delete:
  assumes wf: "wf_server s"
      and ev: "\<forall>n. Close n \<in> set evs \<longrightarrow> (\<exists>p \<in> set (sessions s). mcp (client_of p) = n)"
  shows "wf_server (s\<lparr>trace := trace s @ evs, sessions := AList.delete k (sessions s)\<rparr>) \<and>
         evolves s (s\<lparr>trace := trace s @ evs, sessions := AList.delete k (sessions s)\<rparr>)"
proof -
  let ?s' = "s\<lparr>trace := trace s @ evs, sessions := AList.delete k (sessions s)\<rparr>"
  have S: "set (sessions ?s') = {p \<in> set (sessions s). fst p \<noteq> k}" by (simp add: set_delete)
  from wf have lt: "\<And>p. p \<in> set (sessions s) \<Longrightarrow> mcp (client_of p) < clients s"
    unfolding wf_server_def by blast
  have w: "wf_server ?s'"
    unfolding wf_server_def
  proof (intro conjI)
    show "distinct (map fst (sessions ?s'))"
      using wf by (simp add: wf_server_def distinct_delete)
    show "\<forall>p\<in>set (sessions ?s'). mcp (client_of p) < clients ?s' \<and>
        results_preceded [] (conversationHistory (client_of p))"
      using wf unfolding S wf_server_def by auto
    show "\<forall>p\<in>set (sessions ?s'). \<forall>p'\<in>set (sessions ?s').
        mcp (client_of p) = mcp (client_of p') \<longrightarrow> p = p'"
      using wf unfolding S wf_server_def by auto
    show "\<forall>n. Close n \<in> set (trace ?s') \<longrightarrow> n < clients ?s'"
      using wf ev lt unfolding wf_server_def by auto
  qed
  have e: "evolves s ?s'"
    unfolding evolves_def
  proof (intro conjI)
    show "clients s \<le> clients ?s'" by simp
    show "\<exists>evs. trace ?s' = trace s @ evs \<and>
       (\<forall>n. Close n \<in> set evs \<longrightarrow> n < clients s \<longrightarrow> (\<exists>p\<in>set (sessions s). mcp (client_of p) = n))"
      using ev by (intro exI[of _ evs]) simp
    show "\<forall>p'\<in>set (sessions ?s'). mcp (client_of p') < clients s \<longrightarrow>
       (\<exists>p\<in>set (sessions s). mcp (client_of p) = mcp (client_of p') \<and>
          prefix (conversationHistory (client_of p)) (conversationHistory (client_of p')))"
      unfolding S by auto
  qed
  from w e show ?thesis ..
qed

lemma step_alloc:
  assumes wf: "wf_server s" and ev: "\<forall>n. Close n \<notin> set evs"
  shows "wf_server (s\<lparr>clients := clients s + 1, trace := trace s @ evs\<rparr>) \<and>
         evolves s (s\<lparr>clients := clients s + 1, trace := trace s @ evs\<rparr>)"
  using assms unfolding wf_server_def evolves_def by (auto simp add: less_SucI)

lemma terminateSession_shape:
  "\<exists>pre. terminateSession E t c = (t @ pre @ [Close (mcp c)], c, mcp_close E (t @ pre) (mcp c)) \<and>
     (\<forall>n. Close n \<notin> set pre) \<and>
     (case sessionId c of
        None \<Rightarrow> pre = []
      | Some sid \<Rightarrow>
          if sid \<noteq> [] \<and> transport c \<noteq> None then
            (\<exists>msg. pre = [FetchDelete sid (apiToken c),
               Console (case fetch_DELETE E t sid (apiToken c) of
                          Inl e \<Rightarrow> ERROR
                        | Inr st \<Rightarrow> if st = 405 \<or> response_ok st then LOG else WARN) msg])
          else pre = [])"
proof (cases "sessionId c")
  case None
  then show ?thesis
    by (intro exI[of _ "[]"]) (simp add: terminateSession_def cleanup_def)
next
  case (Some sid)
  show ?thesis
  proof (cases "sid \<noteq> [] \<and> transport c \<noteq> None")
    case False
    with Some show ?thesis
      by (intro exI[of _ "[]"]) (auto simp add: terminateSession_def cleanup_def)
  next
    case True
    show ?thesis
    proof (cases "fetch_DELETE E t sid (apiToken c)")
      case (Inl e)
      with Some True show ?thesis
        by (intro exI[of _ "[FetchDelete sid (apiToken c), Console ERROR ''Error terminating session '']"])
           (auto simp add: terminateSession_def cleanup_def Let_def)
    next
      case (Inr st)
      consider "st = 405" | "st \<noteq> 405" "response_ok st" | "st \<noteq> 405" "\<not> response_ok st" by blast
      then show ?thesis
      proof cases
        case 1
        with Some True Inr show ?thesis
          by (intro exI[of _ "[FetchDelete sid (apiToken c), Console LOG ''MCP server does not allow client-initiated session termination (405 Method Not Allowed)'']"])
             (auto simp add: terminateSession_def cleanup_def Let_def)
      next
        case 2
        with Some True Inr show ?thesis
          by (intro exI[of _ "[FetchDelete sid (apiToken c), Console LOG ''Session terminated successfully'']"])
             (auto simp add: terminateSession_def cleanup_def Let_def)
      next
        case 3
        with Some True Inr show ?thesis
          by (intro exI[of _ "[FetchDelete sid (apiToken c), Console WARN ''Failed to terminate session '']"])
             (auto simp add: terminateSession_def cleanup_def Let_def)
      qed
    qed
  qed
qed

lemma closes_append: "closes n (xs @ ys) = closes n xs + closes n ys"
  by (simp add: closes_def)

lemma closes_none: "\<forall>m. Close m \<notin> set xs \<Longrightarrow> closes n xs = 0"
  by (induction xs) (auto simp add: closes_def)

lemma closes_zero_iff: "closes n xs = 0 \<longleftrightarrow> Close n \<notin> set xs"
  by (induction xs) (auto simp add: closes_def)

lemma removeSession_form:
  assumes "map_of (sessions s) k = Some sd"
  shows "\<exists>evs. removeSession E s k =
            s\<lparr>trace := trace s @ evs, sessions := AList.delete k (sessions s)\<rparr> \<and>
          (\<forall>n. closes n evs = (if n = mcp (mcpClient sd) then 1 else 0))"
proof -
  from terminateSession_shape[of E "trace s" "mcpClient sd"] obtain pre where
    t: "terminateSession E (trace s) (mcpClient sd) =
          (trace s @ pre @ [Close (mcp (mcpClient sd))], mcpClient sd,
           mcp_close E (trace s @ pre) (mcp (mcpClient sd)))"
    and np: "\<forall>n. Close n \<notin> set pre" by blast
  let ?r = "mcp_close E (trace s @ pre) (mcp (mcpClient sd))"
  let ?evs = "pre @ [Close (mcp (mcpClient sd))] @
               (case ?r of None \<Rightarrow> [] | Some e \<Rightarrow> [Console ERROR (err_message e)])"
  have 1: "removeSession E s k = s\<lparr>trace := trace s @ ?evs, sessions := AList.delete k (sessions s)\<rparr>"
    using assms t by (cases ?r) (simp_all add: removeSession_def)
  have 2: "\<forall>n. closes n ?evs = (if n = mcp (mcpClient sd) then 1 else 0)"
    using closes_none[OF np] by (cases ?r) (auto simp add: closes_append, auto simp add: closes_def)
  from 1 2 show ?thesis by blast
qed

lemma removeSession_step:
  assumes wf: "wf_server s"
  shows "wf_server (removeSession E s k) \<and> evolves s (removeSession E s k)"
proof (cases "map_of (sessions s) k")
  case None
  with wf show ?thesis by (simp add: removeSession_miss evolves_refl)
next
  case (Some sd)
  from removeSession_form[OF Some, of E] obtain evs where
    f: "removeSession E s k = s\<lparr>trace := trace s @ evs, sessions := AList.delete k (sessions s)\<rparr>"
    and c: "\<forall>n. closes n evs = (if n = mcp (mcpClient sd) then 1 else 0)" by blast
  from Some have mem: "(k, sd) \<in> set (sessions s)" by (rule map_of_SomeD)
  have "\<forall>n. Close n \<in> set evs \<longrightarrow> (\<exists>p \<in> set (sessions s). mcp (client_of p) = n)"
  proof (intro allI impI)
    fix n assume "Close n \<in> set evs"
    then have "closes n evs \<noteq> 0" by (simp add: closes_zero_iff)
    with c have "n = mcp (mcpClient sd)" by (auto split: if_splits)
    with mem show "\<exists>p \<in> set (sessions s). mcp (client_of p) = n"
      by (intro bexI[of _ "(k, sd)"]) (simp_all add: client_of_def)
  qed
  from step_delete[OF wf this, of k] f show ?thesis by simp
qed

lemma connectToServer_shape:
  "\<exists>evs c' r. connectToServer E t c = (t @ evs, c', r) \<and> (\<forall>n. Close n \<notin> set evs) \<and>
     mcp c' = mcp c \<and> conversationHistory c' = conversationHistory c"
proof (cases "mcp_connect E t (mcp c) (apiToken c)")
  case (Inl e)
  then show ?thesis by (simp add: connectToServer_def Let_def)
next
  case (Inr sid)
  let ?t2 = "discovery_trace t (mcp c) (apiToken c) sid"
  have t2: "\<exists>evs. ?t2 = t @ evs \<and> (\<forall>n. Close n \<notin> set evs)"
    by (simp add: discovery_trace_def)
  then obtain evs where evs: "?t2 = t @ evs" "\<forall>n. Close n \<notin> set evs" by blast
  show ?thesis
  proof (cases "mcp_listTools E ?t2 (mcp c)")
    case (Inl e)
    with Inr evs show ?thesis
      by (auto simp add: connectToServer_def Let_def discovery_trace_def split: if_splits)
  next
    case ts: (Inr ts)
    with Inr evs show ?thesis
      by (auto simp add: connectToServer_def Let_def discovery_trace_def split: if_splits)
  qed
qed

lemma createSession_step:
  assumes wf: "wf_server s" and run: "createSession E s token p = (s', r)"
  shows "wf_server s' \<and> evolves s s'"
proof -
  let ?c0 = "new_MCPClient (clients s) token p"
  from connectToServer_shape[of E "trace s" ?c0] obtain evs c1 r1 where
    c: "connectToServer E (trace s) ?c0 = (trace s @ evs, c1, r1)" "\<forall>n. Close n \<notin> set evs"
       "mcp c1 = mcp ?c0" "conversationHistory c1 = conversationHistory ?c0" by blast
  have m: "mcp c1 = clients s" "conversationHistory c1 = []"
    using c(3,4) by (simp_all add: new_MCPClient_def)
  show ?thesis
  proof (cases r1)
    case (Inl e)
    with run c(1) have "s' = s\<lparr>clients := clients s + 1, trace := trace s @ evs\<rparr>"
      by (auto simp add: createSession_def Let_def)
    with step_alloc[OF wf c(2)] show ?thesis by simp
  next
    case (Inr sid)
    let ?d1 = "Date_now E (trace s @ evs)"
    let ?d2 = "Date_now E ((trace s @ evs) @ [DateRead ?d1])"
    let ?sd = "\<lparr> sd_sessionId = sid, mcpClient = c1, createdAt = ?d1,
                 lastActivity = ?d2, sd_provider = p \<rparr>"
    let ?evs = "evs @ [DateRead ?d1, DateRead ?d2]"
    from run c(1) Inr have "s' = s\<lparr>clients := clients s + 1, trace := trace s @ ?evs,
        sessions := AList.update sid ?sd (sessions s)\<rparr>"
      by (auto simp add: createSession_def Let_def)
    moreover have "\<forall>n. Close n \<notin> set ?evs" using c(2) by simp
    moreover have "mcp (mcpClient ?sd) = clients s"
      "results_preceded [] (conversationHistory (mcpClient ?sd))" using m by simp_all
    ultimately show ?thesis using step_new[OF wf, of ?sd ?evs sid] by simp
  qed
qed

lemma getSession_step:
  assumes wf: "wf_server s" and run: "getSession E s i = (s', r)"
  shows "wf_server s' \<and> evolves s s' \<and>
     (case r of
        None \<Rightarrow> s' = s \<and> map_of (sessions s) i = None
      | Some sd' \<Rightarrow> map_of (sessions s') i = Some sd' \<and>
          (\<exists>sd. map_of (sessions s) i = Some sd \<and> mcpClient sd' = mcpClient sd))"
proof (cases "map_of (sessions s) i")
  case None
  with run wf show ?thesis by (auto simp add: getSession_def evolves_refl)
next
  case (Some sd)
  let ?d = "Date_now E (trace s)"
  let ?sd = "sd\<lparr>lastActivity := ?d\<rparr>"
  from run Some have s': "s' = s\<lparr>trace := trace s @ [DateRead ?d],
      sessions := AList.update i ?sd (sessions s)\<rparr>" and r: "r = Some ?sd"
    by (auto simp add: getSession_def Let_def)
  from wf Some have rp: "results_preceded [] (conversationHistory (mcpClient sd))"
    unfolding wf_server_def client_of_def by (auto dest: map_of_SomeD)
  have "wf_server s' \<and> evolves s s'"
    using step_replace[OF wf Some, of ?sd "[DateRead ?d]"] rp s' by simp
  moreover have "map_of (sessions s') i = Some ?sd" using s' by (simp add: update_conv')
  ultimately show ?thesis using r Some by simp
qed

lemma round_event_not_Close: "round_event m ev \<Longrightarrow> ev \<noteq> Close n"
  by (cases ev) auto

text \<open>The state a chat round leaves: the client stored back under its key.\<close>

lemma chat_round_step:
  assumes wf: "wf_server s1" and k: "map_of (sessions s1) i = Some sd"
      and run: "processQuery E (trace s1) (mcpClient sd) q = (t2, c2, r)"
  shows "wf_server (s1\<lparr>trace := t2, sessions := AList.update i (sd\<lparr>mcpClient := c2\<rparr>) (sessions s1)\<rparr>) \<and>
         evolves s1 (s1\<lparr>trace := t2, sessions := AList.update i (sd\<lparr>mcpClient := c2\<rparr>) (sessions s1)\<rparr>)"
proof -
  from processQuery_shape[OF run] obtain evs ms where
    sh: "t2 = trace s1 @ evs" "extends (mcpClient sd) c2 ms"
        "\<forall>ev \<in> set evs. round_event (mcp (mcpClient sd)) ev"
    unfolding round_shape_def by blast
  from wf k have rp: "results_preceded [] (conversationHistory (mcpClient sd))"
    unfolding wf_server_def client_of_def by (auto dest: map_of_SomeD)
  have 1: "mcp (mcpClient (sd\<lparr>mcpClient := c2\<rparr>)) = mcp (mcpClient sd)"
    using sh(2) by (simp add: extends_def)
  have 2: "prefix (conversationHistory (mcpClient sd)) (conversationHistory (mcpClient (sd\<lparr>mcpClient := c2\<rparr>)))"
    using sh(2) by (simp add: extends_def)
  have 3: "results_preceded [] (conversationHistory (mcpClient (sd\<lparr>mcpClient := c2\<rparr>)))"
    using processQuery_preceded[OF run rp] by simp
  have 4: "\<forall>n. Close n \<notin> set evs" using sh(3) round_event_not_Close by blast
  from step_replace[OF wf k 1 2 3 4] sh(1) show ?thesis by simp
qed

lemma chat_session_step:
  assumes wf: "wf_server s" and run: "chat_session E s q i = (s', resp)"
  shows "wf_server s' \<and> evolves s s'"
proof -
  obtain s1 g where g: "getSession E s i = (s1, g)" by (cases "getSession E s i") auto
  from getSession_step[OF wf g] have w1: "wf_server s1" and e1: "evolves s s1"
    and gr: "case g of None \<Rightarrow> s1 = s \<and> map_of (sessions s) i = None
      | Some sd' \<Rightarrow> map_of (sessions s1) i = Some sd' \<and>
          (\<exists>sd. map_of (sessions s) i = Some sd \<and> mcpClient sd' = mcpClient sd)" by auto
  show ?thesis
  proof (cases g)
    case None
    with run g have "s' = s1" by (simp add: chat_session_def)
    with w1 e1 show ?thesis by simp
  next
    case (Some sd)
    with gr have k: "map_of (sessions s1) i = Some sd" by simp
    obtain t2 c2 r where pq: "processQuery E (trace s1) (mcpClient sd) q = (t2, c2, r)"
      by (cases "processQuery E (trace s1) (mcpClient sd) q") auto
    let ?s2 = "s1\<lparr>trace := t2, sessions := AList.update i (sd\<lparr>mcpClient := c2\<rparr>) (sessions s1)\<rparr>"
    from chat_round_step[OF w1 k pq] have w2: "wf_server ?s2" and e2: "evolves s1 ?s2" by auto
    note e02 = evolves_trans[OF e1 e2]
    show ?thesis
    proof (cases r)
      case (Inr x)
      with run g Some pq have "s' = ?s2" by (simp add: chat_session_def Let_def)
      with w2 e02 show ?thesis by simp
    next
      case (Inl e)
      show ?thesis
      proof (cases "is_404 e")
        case True
        let ?s3 = "?s2\<lparr>trace := trace ?s2 @ [Console LOG ''Session terminated by MCP server (404)'']\<rparr>"
        from step_events[OF w2, of "[Console LOG ''Session terminated by MCP server (404)'']"]
        have w3: "wf_server ?s3" and e3: "evolves ?s2 ?s3" by auto
        from run g Some pq Inl True have "s' = removeSession E ?s3 i"
          by (simp add: chat_session_def Let_def)
        moreover from removeSession_step[OF w3, of E i]
        have "wf_server (removeSession E ?s3 i)" "evolves ?s3 (removeSession E ?s3 i)" by auto
        ultimately show ?thesis using evolves_trans[OF evolves_trans[OF e02 e3]] by simp
      next
        case False
        let ?s3 = "?s2\<lparr>trace := trace ?s2 @ [Console ERROR ''Error processing query for session '']\<rparr>"
        from step_events[OF w2, of "[Console ERROR ''Error processing query for session '']"]
        have w3: "wf_server ?s3" and e3: "evolves ?s2 ?s3" by auto
        from run g Some pq Inl False have "s' = ?s3"
          by (simp add: chat_session_def Let_def)
        with w3 evolves_trans[OF e02 e3] show ?thesis by simp
      qed
    qed
  qed
qed

lemma chatHandler_step:
  assumes wf: "wf_server s" and run: "chatHandler E s query sid = (s', resp)"
  shows "wf_server s' \<and> evolves s s'"
proof (cases "\<exists>q i. query = Some q \<and> q \<noteq> [] \<and> sid = Some i \<and> i \<noteq> []")
  case True
  then obtain q i where "query = Some q" "q \<noteq> []" "sid = Some i" "i \<noteq> []" by blast
  with run have "chat_session E s q i = (s', resp)" by (simp add: chatHandler_def)
  from chat_session_step[OF wf this] show ?thesis .
next
  case False
  with run have "s' = s"
    by (auto simp add: chatHandler_def split: option.splits if_splits)
  with wf show ?thesis by (simp add: evolves_refl)
qed

lemma disconnectHandler_step:
  assumes wf: "wf_server s" and run: "disconnectHandler E s sid = (s', resp)"
  shows "wf_server s' \<and> evolves s s'"
proof (cases "\<exists>i. sid = Some i \<and> i \<noteq> []")
  case False
  with run have "s' = s"
    by (auto simp add: disconnectHandler_def split: option.splits if_splits)
  with wf show ?thesis by (simp add: evolves_refl)
next
  case True
  then obtain i where i: "sid = Some i" "i \<noteq> []" by blast
  obtain s1 g where g: "getSession E s i = (s1, g)" by (cases "getSession E s i") auto
  from getSession_step[OF wf g] have w1: "wf_server s1" and e1: "evolves s s1" by auto
  show ?thesis
  proof (cases g)
    case None
    with run i g have "s' = s1" by (simp add: disconnectHandler_def)
    with w1 e1 show ?thesis by simp
  next
    case (Some sd)
    with run i g have "s' = removeSession E s1 i" by (simp add: disconnectHandler_def)
    moreover from removeSession_step[OF w1, of E i]
    have "wf_server (removeSession E s1 i)" "evolves s1 (removeSession E s1 i)" by auto
    ultimately show ?thesis using evolves_trans[OF e1] by simp
  qed
qed

lemma connectHandler_step:
  assumes wf: "wf_server s" and run: "connectHandler E s authHeader prov = (s', resp)"
  shows "wf_server s' \<and> evolves s s'"
proof (cases "\<exists>h. authHeader = Some h \<and> h \<noteq> [] \<and> take 7 h = ''Bearer ''")
  case False
  with run have "s' = s"
    by (auto simp add: connectHandler_def split: option.splits if_splits)
  with wf show ?thesis by (simp add: evolves_refl)
next
  case True
  then obtain h where h: "authHeader = Some h" "h \<noteq> []" "take 7 h = ''Bearer ''" by blast
  let ?p = "if prov = JStr ''openai'' then openai else if prov = JStr ''ollama'' then ollama else anthropic"
  obtain s1 r where c: "createSession E s (drop 7 h) ?p = (s1, r)"
    by (cases "createSession E s (drop 7 h) ?p") auto
  from createSession_step[OF wf c] have w1: "wf_server s1" and e1: "evolves s s1" by auto
  show ?thesis
  proof (cases r)
    case (Inl e)
    let ?s2 = "s1\<lparr>trace := trace s1 @ [Console ERROR ''Failed to connect to MCP server:'']\<rparr>"
    from run h c Inl have "s' = ?s2" by (simp add: connectHandler_def Let_def)
    with step_events[OF w1, of "[Console ERROR ''Failed to connect to MCP server:'']"]
      evolves_trans[OF e1] show ?thesis by simp
  next
    case (Inr i)
    obtain s2 g where g: "getSession E s1 i = (s2, g)" by (cases "getSession E s1 i") auto
    from getSession_step[OF w1 g] have w2: "wf_server s2" and e2: "evolves s1 s2" by auto
    from run h c Inr g have "s' = s2"
      by (auto simp add: connectHandler_def Let_def split: option.splits)
    with w2 evolves_trans[OF e1 e2] show ?thesis by simp
  qed
qed

lemma route_step:
  assumes "wf_server s"
  shows "wf_server (fst (route E s req)) \<and> evolves s (fst (route E s req))"
proof (cases req)
  case (ConnectRequest a p)
  with connectHandler_step[OF assms, of E a p] show ?thesis
    by (cases "connectHandler E s a p") (simp add: route_def)
next
  case (ChatRequest q i)
  with chatHandler_step[OF assms, of E q i] show ?thesis
    by (cases "chatHandler E s q i") (simp add: route_def)
next
  case (DisconnectRequest i)
  with disconnectHandler_step[OF assms, of E i] show ?thesis
    by (cases "disconnectHandler E s i") (simp add: route_def)
qed

lemma serve_steps:
  "wf_server s \<Longrightarrow> wf_server (serve E s reqs) \<and> evolves s (serve E s reqs)"
proof (induction reqs arbitrary: s)
  case Nil
  then show ?case by (simp add: evolves_refl)
next
  case (Cons req reqs)
  from route_step[OF Cons.prems, of E req] have w: "wf_server (fst (route E s req))"
    and e: "evolves s (fst (route E s req))" by auto
  from Cons.IH[OF w] e show ?case by (auto intro: evolves_trans)
qed

lemma wf_init: "wf_server init_server"
  by (simp add: wf_server_def init_server_def)

lemma connectToServer_success:
  assumes "mcp_connect E t (mcp c) (apiToken c) = Inr x"
      and "mcp_listTools E (discovery_trace t (mcp c) (apiToken c) x) (mcp c) = Inr ts"
  shows "\<exists>evs c'. connectToServer E t c = (t @ evs, c', Inr (id_or_sentinel x)) \<and>
           (\<forall>n. Close n \<notin> set evs) \<and> Connect (mcp c) (apiToken c) \<in> set evs \<and>
           mcp c' = mcp c \<and> conversationHistory c' = conversationHistory c"
  using assms
  by (auto simp add: connectToServer_def Let_def discovery_trace_def id_or_sentinel_def
        split: if_splits option.splits)

lemma connectToServer_returns:
  assumes "connectToServer E t c = (t', c', Inr sid)"
  shows "\<exists>x ts. mcp_connect E t (mcp c) (apiToken c) = Inr x \<and>
           mcp_listTools E (discovery_trace t (mcp c) (apiToken c) x) (mcp c) = Inr ts \<and>
           sid = id_or_sentinel x"
proof (cases "mcp_connect E t (mcp c) (apiToken c)")
  case (Inl e)
  with assms show ?thesis by (simp add: connectToServer_def Let_def)
next
  case (Inr x)
  show ?thesis
  proof (cases "mcp_listTools E (discovery_trace t (mcp c) (apiToken c) x) (mcp c)")
    case (Inl e)
    from connectToServer_listTools_fails[OF Inr Inl] assms show ?thesis by simp
  next
    case ts: (Inr ts)
    from connectToServer_success[OF Inr ts] assms Inr ts show ?thesis by auto
  qed
qed

lemma createSession_success:
  assumes "createSession E s token p = (s', Inr sid)"
  shows "\<exists>x ts evs sd. mcp_connect E (trace s) (clients s) token = Inr x \<and>
           mcp_listTools E (discovery_trace (trace s) (clients s) token x) (clients s) = Inr ts \<and>
           sid = id_or_sentinel x \<and>
           s' = s\<lparr>clients := clients s + 1, trace := trace s @ evs,
                   sessions := AList.update sid sd (sessions s)\<rparr> \<and>
           mcp (mcpClient sd) = clients s \<and> conversationHistory (mcpClient sd) = [] \<and>
           (\<forall>n. Close n \<notin> set evs) \<and> Connect (clients s) token \<in> set evs"
proof -
  let ?c0 = "new_MCPClient (clients s) token p"
  have m0: "mcp ?c0 = clients s" "apiToken ?c0 = token" "conversationHistory ?c0 = []"
    by (simp_all add: new_MCPClient_def)
  obtain t1 c1 r1 where c: "connectToServer E (trace s) ?c0 = (t1, c1, r1)"
    by (cases "connectToServer E (trace s) ?c0") auto
  with assms have r1: "r1 = Inr sid"
    by (cases r1) (auto simp add: createSession_def Let_def)
  from connectToServer_returns[OF c[unfolded r1]] obtain x ts where
    x: "mcp_connect E (trace s) (clients s) token = Inr x"
       "mcp_listTools E (discovery_trace (trace s) (clients s) token x) (clients s) = Inr ts"
       "sid = id_or_sentinel x" unfolding m0 by blast
  from connectToServer_success[of E "trace s" ?c0 x ts] x(1,2) c r1 obtain evs where
    e: "t1 = trace s @ evs" "\<forall>n. Close n \<notin> set evs" "Connect (clients s) token \<in> set evs"
       "mcp c1 = clients s" "conversationHistory c1 = []"
    unfolding m0 by auto
  let ?d1 = "Date_now E t1"
  let ?d2 = "Date_now E (t1 @ [DateRead ?d1])"
  let ?sd = "\<lparr> sd_sessionId = sid, mcpClient = c1, createdAt = ?d1,
               lastActivity = ?d2, sd_provider = p \<rparr>"
  from assms c r1 e(1) have "s' = s\<lparr>clients := clients s + 1,
      trace := trace s @ (evs @ [DateRead ?d1, DateRead ?d2]),
      sessions := AList.update sid ?sd (sessions s)\<rparr>"
    by (auto simp add: createSession_def Let_def)
  with x e show ?thesis
    by (intro exI[of _ x] exI[of _ ts] exI[of _ "evs @ [DateRead ?d1, DateRead ?d2]"] exI[of _ ?sd])
       simp
qed

lemma createSession_total:
  assumes "mcp_connect E (trace s) (clients s) token = Inr x"
      and "mcp_listTools E (discovery_trace (trace s) (clients s) token x) (clients s) = Inr ts"
  shows "snd (createSession E s token p) = Inr (id_or_sentinel x)"
proof -
  let ?c0 = "new_MCPClient (clients s) token p"
  have m0: "mcp ?c0 = clients s" "apiToken ?c0 = token"
    by (simp_all add: new_MCPClient_def)
  from connectToServer_success[of E "trace s" ?c0 x ts] assms obtain evs c' where
    "connectToServer E (trace s) ?c0 = (trace s @ evs, c', Inr (id_or_sentinel x))"
    unfolding m0 by blast
  then show ?thesis by (simp add: createSession_def Let_def)
qed

text \<open>
  C4 (as amended). \<open>connectToServer\<close> succeeds when the tool server sends no session
  id (or an empty one) and resolves to the sentinel \<open>no-session\<close>; each successful
  \<open>createSession\<close> returns exactly the identifier the tool server supplied at its
  handshake, or the sentinel when it supplied none. So two create calls return distinct
  identifiers whenever the identifiers supplied at their handshakes are distinct; the
  code adds no uniqueness of its own.
\<close>

theorem create_returns_server_id_or_sentinel:
  assumes "mcp_connect E (trace s) (clients s) token = Inr x"
      and "mcp_listTools E (discovery_trace (trace s) (clients s) token x) (clients s) = Inr ts"
      and "mcp_connect E (trace s') (clients s') token' = Inr x'"
      and "mcp_listTools E (discovery_trace (trace s') (clients s') token' x') (clients s') = Inr ts'"
  shows "snd (createSession E s token p) = Inr (id_or_sentinel x) \<and>
         snd (createSession E s' token' p') = Inr (id_or_sentinel x') \<and>
         (x = None \<or> x = Some [] \<longrightarrow> id_or_sentinel x = ''no-session'') \<and>
         (\<forall>i. x = Some i \<and> i \<noteq> [] \<longrightarrow> id_or_sentinel x = i) \<and>
         (\<forall>i j. x = Some i \<and> x' = Some j \<and> i \<noteq> [] \<and> j \<noteq> [] \<and> i \<noteq> j \<longrightarrow>
            snd (createSession E s token p) \<noteq> snd (createSession E s' token' p'))"
proof -
  have 1: "snd (createSession E s token p) = Inr (id_or_sentinel x)"
    using assms(1,2) by (rule createSession_total)
  have 2: "snd (createSession E s' token' p') = Inr (id_or_sentinel x')"
    using assms(3,4) by (rule createSession_total)
  show ?thesis unfolding 1 2
    by (auto simp add: id_or_sentinel_def or_null_def)
qed

text \<open>
  The claim as stated fails: a tool server that supplies the same identifier at two
  handshakes makes two create calls return the same identifier, which is not the
  sentinel.
\<close>

theorem create_same_id_twice:
  "snd (createSession env_ok init_server ''tok'' anthropic) = Inr ''sess-1'' \<and>
   snd (createSession env_ok (fst (createSession env_ok init_server ''tok'' anthropic))
          ''tok2'' openai) = Inr ''sess-1'' \<and>
   ''sess-1'' \<noteq> ''no-session''"
  by code_simp

theorem create_returns_witness:
  "mcp_connect env_no_header (trace init_server) (clients init_server) ''tok'' = Inr None \<and>
   mcp_listTools env_no_header
     (discovery_trace (trace init_server) (clients init_server) ''tok'' None)
     (clients init_server) = Inr [McpTool ''search'' (Some ''Search the web'') ''{}''] \<and>
   mcp_connect env_ok (trace (demo_server openai)) (clients (demo_server openai)) ''tok2''
     = Inr (Some ''sess-1'') \<and>
   mcp_listTools env_ok
     (discovery_trace (trace (demo_server openai)) (clients (demo_server openai)) ''tok2''
        (Some ''sess-1''))
     (clients (demo_server openai)) = Inr [McpTool ''search'' (Some ''Search the web'') ''{}''] \<and>
   snd (createSession env_no_header init_server ''tok'' anthropic) = Inr ''no-session'' \<and>
   snd (createSession env_ok (demo_server openai) ''tok2'' ollama) = Inr ''sess-1''"
proof -
  have a: "mcp_connect env_no_header (trace init_server) (clients init_server) ''tok'' = Inr None"
    by (simp add: env_no_header_def env_ok_def)
  have b: "mcp_listTools env_no_header
     (discovery_trace (trace init_server) (clients init_server) ''tok'' None)
     (clients init_server) = Inr [McpTool ''search'' (Some ''Search the web'') ''{}'']"
    by (simp add: env_no_header_def env_ok_def)
  have c: "mcp_connect env_ok (trace (demo_server openai)) (clients (demo_server openai)) ''tok2''
     = Inr (Some ''sess-1'')"
    by (simp add: env_ok_def)
  have d: "mcp_listTools env_ok
     (discovery_trace (trace (demo_server openai)) (clients (demo_server openai)) ''tok2''
        (Some ''sess-1''))
     (clients (demo_server openai)) = Inr [McpTool ''search'' (Some ''Search the web'') ''{}'']"
    by (simp add: env_ok_def)
  from create_returns_server_id_or_sentinel[OF a b a b, of anthropic anthropic]
       create_returns_server_id_or_sentinel[OF c d c d, of ollama ollama]
  have "snd (createSession env_no_header init_server ''tok'' anthropic) = Inr (id_or_sentinel None)"
       "snd (createSession env_ok (demo_server openai) ''tok2'' ollama) = Inr (id_or_sentinel (Some ''sess-1''))"
    by blast+
  with a b c d show ?thesis by (simp add: id_or_sentinel_def or_null_def)
qed

lemma filter_key_distinct:
  "distinct (map fst xs) \<Longrightarrow> map_of xs k = Some v \<Longrightarrow> filter (\<lambda>p. fst p = k) xs = [(k, v)]"
proof (induction xs)
  case Nil
  then show ?case by simp
next
  case (Cons a xs)
  show ?case
  proof (cases "fst a = k")
    case True
    with Cons.prems have "a = (k, v)" by (cases a) simp
    moreover have "filter (\<lambda>p. fst p = k) xs = []"
    proof -
      from Cons.prems(1) True have nk: "k \<notin> fst ` set xs" by simp
      have "\<forall>p \<in> set xs. fst p \<noteq> k"
      proof
        fix p assume "p \<in> set xs"
        then have "fst p \<in> fst ` set xs" by (rule imageI)
        with nk show "fst p \<noteq> k" by auto
      qed
      then show ?thesis by (simp add: filter_empty_conv)
    qed
    ultimately show ?thesis by simp
  next
    case False
    with Cons show ?thesis by auto
  qed
qed

lemma wf_demo_server: "wf_server (demo_server p)"
  using createSession_step[OF wf_init, of env_ok "''tok''" p]
  by (cases "createSession env_ok init_server ''tok'' p") (simp add: demo_server_def)

text \<open>
  C9. When the tool server sends no session id at two handshakes, both create calls
  return \<open>no-session\<close> and store their session under that one key: after the second
  call the registry holds exactly one entry for the key, and it is the second session
  (the first was registered there after the first call). No entry of the registry holds
  the first client any more, its connection was opened, and no sequence of requests
  (so no \<open>removeSession\<close>) ever releases it.
\<close>

theorem sentinel_sessions_share_one_entry:
  assumes wf: "wf_server s"
      and c1: "createSession E s token1 p1 = (s1, Inr sid1)"
      and h1: "mcp_connect E (trace s) (clients s) token1 = Inr x1" "or_null x1 = None"
      and c2: "createSession E s1 token2 p2 = (s2, Inr sid2)"
      and h2: "mcp_connect E (trace s1) (clients s1) token2 = Inr x2" "or_null x2 = None"
  shows "sid1 = ''no-session'' \<and> sid2 = ''no-session'' \<and>
     (\<exists>sd. map_of (sessions s1) ''no-session'' = Some sd \<and> mcp (mcpClient sd) = clients s) \<and>
     (\<exists>sd. filter (\<lambda>p. fst p = ''no-session'') (sessions s2) = [(''no-session'', sd)] \<and>
           mcp (mcpClient sd) = Suc (clients s)) \<and>
     (\<forall>p \<in> set (sessions s2). mcp (client_of p) \<noteq> clients s) \<and>
     Connect (clients s) token1 \<in> set (trace s2) \<and>
     (\<forall>reqs. Close (clients s) \<notin> set (trace (serve E s2 reqs)))"
proof -
  from createSession_success[OF c1] h1 obtain evs1 sd1 where
    a: "sid1 = ''no-session''"
       "s1 = s\<lparr>clients := clients s + 1, trace := trace s @ evs1,
                sessions := AList.update sid1 sd1 (sessions s)\<rparr>"
       "mcp (mcpClient sd1) = clients s" "\<forall>n. Close n \<notin> set evs1"
       "Connect (clients s) token1 \<in> set evs1"
    by (auto simp add: id_or_sentinel_def)
  from createSession_success[OF c2] h2 obtain evs2 sd2 where
    b: "sid2 = ''no-session''"
       "s2 = s1\<lparr>clients := clients s1 + 1, trace := trace s1 @ evs2,
                sessions := AList.update sid2 sd2 (sessions s1)\<rparr>"
       "mcp (mcpClient sd2) = clients s1" "\<forall>n. Close n \<notin> set evs2"
    by (auto simp add: id_or_sentinel_def)
  from createSession_step[OF wf c1] have w1: "wf_server s1" by simp
  from createSession_step[OF w1 c2] have w2: "wf_server s2" by simp
  from wf have d: "distinct (map fst (sessions s))" by (simp add: wf_server_def)
  from w1 have d1: "distinct (map fst (sessions s1))" by (simp add: wf_server_def)
  from w2 have d2: "distinct (map fst (sessions s2))" by (simp add: wf_server_def)
  have cl: "clients s1 = Suc (clients s)" "clients s2 = Suc (Suc (clients s))"
    using a(2) b(2) by simp_all
  have m1: "map_of (sessions s1) ''no-session'' = Some sd1"
    using a(1,2) by (simp add: update_conv')
  have m2: "map_of (sessions s2) ''no-session'' = Some sd2"
    using b(1,2) by (simp add: update_conv')
  have S2: "set (sessions s2) = insert (''no-session'', sd2)
      {p \<in> set (sessions s). fst p \<noteq> ''no-session''}"
    using a(1,2) b(1,2) d d1 by (auto simp add: set_update_distinct)
  have unreachable: "\<forall>p \<in> set (sessions s2). mcp (client_of p) \<noteq> clients s"
  proof
    fix p assume "p \<in> set (sessions s2)"
    then consider "p = (''no-session'', sd2)" | "p \<in> set (sessions s)" unfolding S2 by blast
    then show "mcp (client_of p) \<noteq> clients s"
    proof cases
      case 1
      with b(3) cl show ?thesis by (simp add: client_of_def)
    next
      case 2
      with wf have "mcp (client_of p) < clients s" unfolding wf_server_def by blast
      then show ?thesis by simp
    qed
  qed
  have tr2: "trace s2 = trace s @ evs1 @ evs2" using a(2) b(2) by simp
  have nc2: "Close (clients s) \<notin> set (trace s2)"
  proof
    assume "Close (clients s) \<in> set (trace s2)"
    with tr2 a(4) b(4) have "Close (clients s) \<in> set (trace s)" by auto
    with wf have "clients s < clients s" unfolding wf_server_def by blast
    then show False by simp
  qed
  have never: "\<forall>reqs. Close (clients s) \<notin> set (trace (serve E s2 reqs))"
  proof (intro allI notI)
    fix reqs assume c: "Close (clients s) \<in> set (trace (serve E s2 reqs))"
    from serve_steps[OF w2, of E reqs] have "evolves s2 (serve E s2 reqs)" by simp
    then obtain evs where e: "trace (serve E s2 reqs) = trace s2 @ evs"
      "\<forall>n. Close n \<in> set evs \<longrightarrow> n < clients s2 \<longrightarrow> (\<exists>p \<in> set (sessions s2). mcp (client_of p) = n)"
      unfolding evolves_def by blast
    from c e(1) nc2 have "Close (clients s) \<in> set evs" by simp
    with e(2) cl obtain p where "p \<in> set (sessions s2)" "mcp (client_of p) = clients s" by force
    with unreachable show False by blast
  qed
  have "filter (\<lambda>p. fst p = ''no-session'') (sessions s2) = [(''no-session'', sd2)]"
    using filter_key_distinct[OF d2 m2] .
  with a b cl m1 unreachable never tr2 show ?thesis by auto
qed

text \<open>
  C5. Whatever requests a process serves from a well-formed state: the state stays
  well-formed, so in the history of every registered session each tool result is
  preceded by an assistant message carrying a request with its correlation id; and the
  history a session had before is a prefix of the history it has afterwards (nothing
  once appended is edited or removed). A session is identified by its client.
\<close>

theorem histories_append_only_results_preceded:
  assumes wf: "wf_server s"
  shows "wf_server (serve E s reqs) \<and>
     (\<forall>p' \<in> set (sessions (serve E s reqs)).
         results_preceded [] (conversationHistory (client_of p'))) \<and>
     (\<forall>p \<in> set (sessions s). \<forall>p' \<in> set (sessions (serve E s reqs)).
         mcp (client_of p) = mcp (client_of p') \<longrightarrow>
         prefix (conversationHistory (client_of p)) (conversationHistory (client_of p')))"
proof -
  let ?s' = "serve E s reqs"
  from serve_steps[OF wf, of E reqs] have w': "wf_server ?s'" and ev: "evolves s ?s'" by auto
  have 1: "\<forall>p' \<in> set (sessions ?s'). results_preceded [] (conversationHistory (client_of p'))"
    using w' unfolding wf_server_def by blast
  have 2: "\<forall>p \<in> set (sessions s). \<forall>p' \<in> set (sessions ?s').
         mcp (client_of p) = mcp (client_of p') \<longrightarrow>
         prefix (conversationHistory (client_of p)) (conversationHistory (client_of p'))"
  proof (intro ballI impI)
    fix p p' assume a: "p \<in> set (sessions s)" "p' \<in> set (sessions ?s')"
      "mcp (client_of p) = mcp (client_of p')"
    from wf a(1) have "mcp (client_of p) < clients s" unfolding wf_server_def by blast
    with a(3) have "mcp (client_of p') < clients s" by simp
    with ev a(2) obtain p0 where p0: "p0 \<in> set (sessions s)"
      "mcp (client_of p0) = mcp (client_of p')"
      "prefix (conversationHistory (client_of p0)) (conversationHistory (client_of p'))"
      unfolding evolves_def by blast
    from wf p0(1) a(1) p0(2) a(3) have "p0 = p" unfolding wf_server_def by metis
    with p0(3) show "prefix (conversationHistory (client_of p)) (conversationHistory (client_of p'))"
      by simp
  qed
  from w' 1 2 show ?thesis by blast
qed

theorem sentinel_sessions_witness:
  "wf_server init_server \<and>
   createSession env_no_header init_server ''tok'' anthropic = (sentinel_server1, Inr ''no-session'') \<and>
   mcp_connect env_no_header (trace init_server) (clients init_server) ''tok'' = Inr None \<and>
   or_null None = None \<and>
   createSession env_no_header sentinel_server1 ''tok2'' openai = (sentinel_server2, Inr ''no-session'') \<and>
   mcp_connect env_no_header (trace sentinel_server1) (clients sentinel_server1) ''tok2'' = Inr None \<and>
   map fst (sessions sentinel_server2) = [''no-session''] \<and>
   map (\<lambda>p. mcp (client_of p)) (sessions sentinel_server2) = [1] \<and>
   Connect 0 ''tok'' \<in> set (trace sentinel_server2) \<and>
   Close 0 \<notin> set (trace (serve env_no_header sentinel_server2
                      [DisconnectRequest (Some ''no-session'')]))"
proof -
  have c1: "createSession env_no_header init_server ''tok'' anthropic =
      (sentinel_server1, Inr ''no-session'')" by code_simp
  have h1: "mcp_connect env_no_header (trace init_server) (clients init_server) ''tok'' = Inr None"
    by (simp add: env_no_header_def env_ok_def)
  have n: "or_null None = None" by (simp add: or_null_def)
  have c2: "createSession env_no_header sentinel_server1 ''tok2'' openai =
      (sentinel_server2, Inr ''no-session'')" by code_simp
  have h2: "mcp_connect env_no_header (trace sentinel_server1) (clients sentinel_server1) ''tok2''
      = Inr None"
    by (simp add: env_no_header_def env_ok_def)
  have k: "map fst (sessions sentinel_server2) = [''no-session'']" by code_simp
  have m: "map (\<lambda>p. mcp (client_of p)) (sessions sentinel_server2) = [1]" by code_simp
  have z: "clients init_server = 0" by (simp add: init_server_def)
  from sentinel_sessions_share_one_entry[OF wf_init c1 h1 n c2 h2 n]
  have "Connect 0 ''tok'' \<in> set (trace sentinel_server2)"
       "Close 0 \<notin> set (trace (serve env_no_header sentinel_server2
                      [DisconnectRequest (Some ''no-session'')]))"
    unfolding z by blast+
  with wf_init c1 h1 n c2 h2 k m show ?thesis by simp
qed

theorem histories_witness:
  "wf_server (demo_server openai) \<and>
   wf_server (serve env_ok (demo_server openai)
      [ChatRequest (Some ''find cats'') (Some ''sess-1''), ChatRequest (Some ''hello'') (Some ''sess-1'')]) \<and>
   map (\<lambda>p. (mcp (client_of p), conversationHistory (client_of p))) (sessions (demo_server openai))
     = [(0, [])] \<and>
   map (\<lambda>p. (mcp (client_of p), conversationHistory (client_of p)))
     (sessions (serve env_ok (demo_server openai) [ChatRequest (Some ''find cats'') (Some ''sess-1'')]))
     = [(0, [UserText ''find cats'',
             OpenAIAssistant None (Some [OAToolCall ''call_1'' ''search'' ''{}'']),
             ToolMessage ''3 results'' ''call_1'',
             OpenAIAssistant (Some ''Found 3 results.'') None])] \<and>
   results_preceded []
     [UserText ''find cats'',
      OpenAIAssistant None (Some [OAToolCall ''call_1'' ''search'' ''{}'']),
      ToolMessage ''3 results'' ''call_1'',
      OpenAIAssistant (Some ''Found 3 results.'') None]"
proof -
  have a: "map (\<lambda>p. (mcp (client_of p), conversationHistory (client_of p)))
      (sessions (demo_server openai)) = [(0, [])]" by code_simp
  have b: "map (\<lambda>p. (mcp (client_of p), conversationHistory (client_of p)))
     (sessions (serve env_ok (demo_server openai) [ChatRequest (Some ''find cats'') (Some ''sess-1'')]))
     = [(0, [UserText ''find cats'',
             OpenAIAssistant None (Some [OAToolCall ''call_1'' ''search'' ''{}'']),
             ToolMessage ''3 results'' ''call_1'',
             OpenAIAssistant (Some ''Found 3 results.'') None])]" by code_simp
  have c: "results_preceded []
     [UserText ''find cats'',
      OpenAIAssistant None (Some [OAToolCall ''call_1'' ''search'' ''{}'']),
      ToolMessage ''3 results'' ''call_1'',
      OpenAIAssistant (Some ''Found 3 results.'') None]" by code_simp
  from histories_append_only_results_preceded[OF wf_demo_server, of env_ok openai
      "[ChatRequest (Some ''find cats'') (Some ''sess-1''), ChatRequest (Some ''hello'') (Some ''sess-1'')]"]
  have "wf_server (serve env_ok (demo_server openai)
      [ChatRequest (Some ''find cats'') (Some ''sess-1''), ChatRequest (Some ''hello'') (Some ''sess-1'')])"
    by blast
  with wf_demo_server a b c show ?thesis by blast
qed

text \<open>
  C7. \<open>terminateSession\<close> sends the DELETE request only when the client has a session
  id and a transport; whatever the request does (405 and 2xx are logged with
  \<open>console.log\<close>, another status with \<open>console.warn\<close>, a thrown error with
  \<open>console.error\<close>), nothing of it propagates: the connection is released next, as the
  last event, and the promise rejects only if \<open>mcp.close\<close> does. \<open>removeSession\<close> of a
  registered session therefore releases the connection of that session exactly once and
  no other, and deletes the entry.
\<close>

theorem terminate_releases_connection_once:
  "(\<exists>pre. terminateSession E t c =
            (t @ pre @ [Close (mcp c)], c, mcp_close E (t @ pre) (mcp c)) \<and>
       (\<forall>n. closes n pre = 0) \<and>
       (case sessionId c of
          None \<Rightarrow> pre = []
        | Some sid \<Rightarrow>
            if sid \<noteq> [] \<and> transport c \<noteq> None then
              (\<exists>msg. pre = [FetchDelete sid (apiToken c),
                 Console (case fetch_DELETE E t sid (apiToken c) of
                            Inl e \<Rightarrow> ERROR
                          | Inr st \<Rightarrow> if st = 405 \<or> response_ok st then LOG else WARN) msg])
            else pre = [])) \<and>
   (\<forall>k sd. map_of (sessions s) k = Some sd \<longrightarrow>
      (\<exists>evs. removeSession E s k =
                s\<lparr>trace := trace s @ evs, sessions := AList.delete k (sessions s)\<rparr> \<and>
             (\<forall>n. closes n evs = (if n = mcp (mcpClient sd) then 1 else 0))))"
proof (intro conjI allI impI)
  from terminateSession_shape[of E t c] obtain pre where
    p: "terminateSession E t c = (t @ pre @ [Close (mcp c)], c, mcp_close E (t @ pre) (mcp c))"
       "\<forall>n. Close n \<notin> set pre"
       "case sessionId c of
          None \<Rightarrow> pre = []
        | Some sid \<Rightarrow>
            if sid \<noteq> [] \<and> transport c \<noteq> None then
              (\<exists>msg. pre = [FetchDelete sid (apiToken c),
                 Console (case fetch_DELETE E t sid (apiToken c) of
                            Inl e \<Rightarrow> ERROR
                          | Inr st \<Rightarrow> if st = 405 \<or> response_ok st then LOG else WARN) msg])
            else pre = []" by blast
  from p(2) have "\<forall>n. closes n pre = 0" by (simp add: closes_none)
  with p(1,3) show "\<exists>pre. terminateSession E t c =
            (t @ pre @ [Close (mcp c)], c, mcp_close E (t @ pre) (mcp c)) \<and>
       (\<forall>n. closes n pre = 0) \<and>
       (case sessionId c of
          None \<Rightarrow> pre = []
        | Some sid \<Rightarrow>
            if sid \<noteq> [] \<and> transport c \<noteq> None then
              (\<exists>msg. pre = [FetchDelete sid (apiToken c),
                 Console (case fetch_DELETE E t sid (apiToken c) of
                            Inl e \<Rightarrow> ERROR
                          | Inr st \<Rightarrow> if st = 405 \<or> response_ok st then LOG else WARN) msg])
            else pre = [])" by blast
next
  fix k sd assume "map_of (sessions s) k = Some sd"
  then show "\<exists>evs. removeSession E s k =
                s\<lparr>trace := trace s @ evs, sessions := AList.delete k (sessions s)\<rparr> \<and>
             (\<forall>n. closes n evs = (if n = mcp (mcpClient sd) then 1 else 0))"
    by (rule removeSession_form)
qed

theorem terminate_releases_witness:
  "terminateSession env_405 [] (demo_client ollama) =
     ([FetchDelete ''sess-1'' ''tok'',
       Console LOG ''MCP server does not allow client-initiated session termination (405 Method Not Allowed)'',
       Close 0], demo_client ollama, None) \<and>
   terminateSession (env_ok\<lparr>fetch_DELETE := (\<lambda>t sid token. Inl (new_Error ''fetch failed''))\<rparr>) []
       (demo_client ollama) =
     ([FetchDelete ''sess-1'' ''tok'', Console ERROR ''Error terminating session '', Close 0],
      demo_client ollama, None) \<and>
   terminateSession (env_ok\<lparr>fetch_DELETE := (\<lambda>t sid token. Inr 500)\<rparr>) [] (demo_client ollama) =
     ([FetchDelete ''sess-1'' ''tok'', Console WARN ''Failed to terminate session '', Close 0],
      demo_client ollama, None) \<and>
   terminateSession env_ok [] (new_MCPClient 5 ''tok'' anthropic) =
     ([Close 5], new_MCPClient 5 ''tok'' anthropic, None) \<and>
   map fst (sessions (demo_server ollama)) = [''sess-1''] \<and>
   sessions (removeSession env_405 (demo_server ollama) ''sess-1'') = [] \<and>
   closes 0 (drop (length (trace (demo_server ollama)))
               (trace (removeSession env_405 (demo_server ollama) ''sess-1''))) = 1"
proof -
  have a: "terminateSession env_405 [] (demo_client ollama) =
     ([FetchDelete ''sess-1'' ''tok'',
       Console LOG ''MCP server does not allow client-initiated session termination (405 Method Not Allowed)'',
       Close 0], demo_client ollama, None)" by code_simp
  have b: "terminateSession (env_ok\<lparr>fetch_DELETE := (\<lambda>t sid token. Inl (new_Error ''fetch failed''))\<rparr>) []
       (demo_client ollama) =
     ([FetchDelete ''sess-1'' ''tok'', Console ERROR ''Error terminating session '', Close 0],
      demo_client ollama, None)" by code_simp
  have c: "terminateSession (env_ok\<lparr>fetch_DELETE := (\<lambda>t sid token. Inr 500)\<rparr>) [] (demo_client ollama) =
     ([FetchDelete ''sess-1'' ''tok'', Console WARN ''Failed to terminate session '', Close 0],
      demo_client ollama, None)" by code_simp
  have d: "terminateSession env_ok [] (new_MCPClient 5 ''tok'' anthropic) =
     ([Close 5], new_MCPClient 5 ''tok'' anthropic, None)" by code_simp
  have e: "map fst (sessions (demo_server ollama)) = [''sess-1'']" by code_simp
  obtain sd where sd: "map_of (sessions (demo_server ollama)) ''sess-1'' = Some sd"
    "mcp (mcpClient sd) = 0"
    by (simp add: demo_server_def createSession_def connectToServer_def env_ok_def Let_def
          init_server_def new_MCPClient_def or_null_def)
  from terminate_releases_connection_once[of env_405 "[]" "demo_client ollama" "demo_server ollama"] sd(1)
  obtain evs where r:
    "removeSession env_405 (demo_server ollama) ''sess-1'' =
       (demo_server ollama)\<lparr>trace := trace (demo_server ollama) @ evs,
          sessions := AList.delete ''sess-1'' (sessions (demo_server ollama))\<rparr>"
    "\<forall>n. closes n evs = (if n = mcp (mcpClient sd) then 1 else 0)" by blast
  from r(2) sd(2) have "closes 0 evs = 1" by simp
  with r(1) have f: "closes 0 (drop (length (trace (demo_server ollama)))
               (trace (removeSession env_405 (demo_server ollama) ''sess-1''))) = 1" by simp
  have g: "sessions (removeSession env_405 (demo_server ollama) ''sess-1'') = []" by code_simp
  from a b c d e f g show ?thesis by blast
qed

lemma chat_session_cases [consumes 1, case_names missing answered removed failed]:
  assumes run: "chat_session E s q i = (s', resp)"
  obtains
    (missing) "map_of (sessions s) i = None" "s' = s"
      "resp = Response 404 [(''error'',
          JStr ''Session not found or expired. Please connect again using /connect endpoint'')]"
  | (answered) sd t2 c2 x where
      "map_of (sessions s) i = Some sd"
      "processQuery E (trace s @ [DateRead (Date_now E (trace s))]) (mcpClient sd) q = (t2, c2, Inr x)"
      "trace s' = t2"
      "map_of (sessions s') i = Some (sd\<lparr>lastActivity := Date_now E (trace s), mcpClient := c2\<rparr>)"
      "resp = Response 200 [(''response'', JStr x), (''sessionId'', JStr i),
          (''conversationLength'', JNum (int (length (conversationHistory c2))))]"
  | (removed) sd t2 c2 e where
      "map_of (sessions s) i = Some sd"
      "processQuery E (trace s @ [DateRead (Date_now E (trace s))]) (mcpClient sd) q = (t2, c2, Inl e)"
      "is_404 e"
      "map_of (sessions s') i = None"
      "resp = Response 404
          [(''error'', JStr ''Session terminated by server. Please connect again.''),
           (''requiresReconnect'', JBool True)]"
  | (failed) sd t2 c2 e where
      "map_of (sessions s) i = Some sd"
      "processQuery E (trace s @ [DateRead (Date_now E (trace s))]) (mcpClient sd) q = (t2, c2, Inl e)"
      "\<not> is_404 e"
      "trace s' = t2 @ [Console ERROR ''Error processing query for session '']"
      "map_of (sessions s') i = Some (sd\<lparr>lastActivity := Date_now E (trace s), mcpClient := c2\<rparr>)"
      "resp = Response 500 [(''error'', JStr ''Failed to process query'')]"
proof (cases "map_of (sessions s) i")
  case None
  with run have "s' = s" "resp = Response 404 [(''error'',
          JStr ''Session not found or expired. Please connect again using /connect endpoint'')]"
    by (simp_all add: chat_session_def getSession_miss)
  with None show thesis by (intro missing)
next
  case (Some sd)
  let ?d = "Date_now E (trace s)"
  let ?sd = "sd\<lparr>lastActivity := ?d\<rparr>"
  let ?s1 = "s\<lparr>trace := trace s @ [DateRead ?d], sessions := AList.update i ?sd (sessions s)\<rparr>"
  have g: "getSession E s i = (?s1, Some ?sd)" using Some by (simp add: getSession_def Let_def)
  obtain t2 c2 r where pq:
    "processQuery E (trace s @ [DateRead ?d]) (mcpClient sd) q = (t2, c2, r)"
    by (cases "processQuery E (trace s @ [DateRead ?d]) (mcpClient sd) q") auto
  let ?s2 = "?s1\<lparr>trace := t2, sessions := AList.update i (?sd\<lparr>mcpClient := c2\<rparr>) (sessions ?s1)\<rparr>"
  have m2: "map_of (sessions ?s2) i = Some (sd\<lparr>lastActivity := ?d, mcpClient := c2\<rparr>)"
    by (simp add: update_conv')
  show thesis
  proof (cases r)
    case (Inr x)
    with run g pq have "s' = ?s2" "resp = Response 200 [(''response'', JStr x), (''sessionId'', JStr i),
          (''conversationLength'', JNum (int (length (conversationHistory c2))))]"
      by (simp_all add: chat_session_def Let_def)
    with m2 show thesis by (intro answered[OF Some pq[unfolded Inr]]) simp_all
  next
    case (Inl e)
    show thesis
    proof (cases "is_404 e")
      case True
      let ?s3 = "?s2\<lparr>trace := trace ?s2 @ [Console LOG ''Session terminated by MCP server (404)'']\<rparr>"
      from run g pq Inl True have s': "s' = removeSession E ?s3 i"
        and resp: "resp = Response 404
          [(''error'', JStr ''Session terminated by server. Please connect again.''),
           (''requiresReconnect'', JBool True)]"
        by (simp_all add: chat_session_def Let_def)
      have "map_of (sessions ?s3) i = Some (sd\<lparr>lastActivity := ?d, mcpClient := c2\<rparr>)"
        by (simp add: update_conv')
      from removeSession_form[OF this, of E] s' have "map_of (sessions s') i = None"
        by (auto simp add: delete_conv')
      with resp show thesis by (intro removed[OF Some pq[unfolded Inl] True])
    next
      case False
      with run g pq Inl have
        "s' = ?s2\<lparr>trace := trace ?s2 @ [Console ERROR ''Error processing query for session '']\<rparr>"
        "resp = Response 500 [(''error'', JStr ''Failed to process query'')]"
        by (simp_all add: chat_session_def Let_def)
      with m2 show thesis by (intro failed[OF Some pq[unfolded Inl] False]) simp_all
    qed
  qed
qed

lemma chat_unknown_session:
  assumes "q \<noteq> []" "i \<noteq> []" "map_of (sessions s) i = None"
  shows "chatHandler E s (Some q) (Some i) =
     (s, Response 404 [(''error'',
          JStr ''Session not found or expired. Please connect again using /connect endpoint'')])"
  using assms by (simp add: chatHandler_def chat_session_def getSession_miss)

section \<open>A failing model call\<close>

lemma processQuery_initial_call_fails:
  assumes "sdk_ready c" and "initial_call_error E t c q = Some e"
  shows "processQuery E t c q =
     (t @ [ModelCall (provider c) (conversationHistory c @ [UserText q])], push c (UserText q), Inl e)"
proof (cases "provider c")
  case anthropic
  with assms have "anthropic_messages_create E t (conversationHistory c @ [UserText q]) (tools c) = Inl e"
    "anthropic_sdk c \<noteq> None"
    by (auto simp add: initial_call_error_def sdk_ready_def split: sum.splits)
  with anthropic show ?thesis
    by (auto simp add: processQuery_def processQueryWithAnthropic_def Let_def push_def)
next
  case openai
  with assms have "openai_chat_completions_create E t (conversationHistory c @ [UserText q]) (tools_arg c) = Inl e"
    "openai_sdk c \<noteq> None"
    by (auto simp add: initial_call_error_def sdk_ready_def split: sum.splits)
  with openai show ?thesis
    by (auto simp add: processQuery_def processQueryWithOpenAI_def Let_def push_def tools_arg_def)
next
  case ollama
  with assms have "ollama_chat E t (conversationHistory c @ [UserText q]) (tools_arg c) = Inl e"
    "ollama_sdk c \<noteq> None"
    by (auto simp add: initial_call_error_def sdk_ready_def split: sum.splits)
  with ollama show ?thesis
    by (auto simp add: processQuery_def processQueryWithOllama_def Let_def push_def tools_arg_def)
qed

text \<open>
  When the first model call of a chat round throws \<open>e\<close>: if neither \<open>status\<close> nor
  \<open>code\<close> of \<open>e\<close> is 404, the session stays registered, its history is the history
  before with the user message appended, and the answer is 500; if one of them is 404,
  the handler takes the error for a termination by the tool server and removes the
  session.
\<close>

lemma chat_initial_call_fails:
  assumes q: "q \<noteq> []" and i: "i \<noteq> []"
      and k: "map_of (sessions s) i = Some sd" and ready: "sdk_ready (mcpClient sd)"
      and err: "initial_call_error E (trace s @ [DateRead (Date_now E (trace s))]) (mcpClient sd) q = Some e"
      and run: "chatHandler E s (Some q) (Some i) = (s', resp)"
  shows "if is_404 e
         then map_of (sessions s') i = None \<and>
              resp = Response 404
                [(''error'', JStr ''Session terminated by server. Please connect again.''),
                 (''requiresReconnect'', JBool True)]
         else map_of (sessions s') i =
                Some (sd\<lparr>lastActivity := Date_now E (trace s),
                         mcpClient := push (mcpClient sd) (UserText q)\<rparr>) \<and>
              resp = Response 500 [(''error'', JStr ''Failed to process query'')]"
proof -
  from run q i have cs: "chat_session E s q i = (s', resp)" by (simp add: chatHandler_def)
  note pq = processQuery_initial_call_fails[OF ready err]
  from cs show ?thesis
  proof (cases rule: chat_session_cases)
    case missing
    with k show ?thesis by simp
  next
    case (answered sd' t2 c2 x)
    with k pq show ?thesis by simp
  next
    case (removed sd' t2 c2 e')
    with k pq show ?thesis by simp
  next
    case (failed sd' t2 c2 e')
    with k pq show ?thesis by simp
  qed
qed

text \<open>
  C10. The claim fails on the code at a provider error that carries status 404: the
  chat handler answers the first model call of the Anthropic SDK throwing 404 by removing
  the session and asking the caller to reconnect, although no tool was invoked.
\<close>

theorem provider_404_removes_session:
  "initial_call_error env_provider_404
     (trace (demo_server anthropic) @ [DateRead (Date_now env_provider_404 (trace (demo_server anthropic)))])
     (demo_client anthropic) ''hello''
     = Some (JsError (JNum 404) JUndefined ''not_found_error'') \<and>
   map fst (sessions (demo_server anthropic)) = [''sess-1''] \<and>
   chatHandler env_provider_404 (demo_server anthropic) (Some ''hello'') (Some ''sess-1'') =
     (\<lparr>sessions = [],
       trace = [Connect 0 ''tok'', ListTools 0,
                Console LOG ''Connected to MCP server with session ID: '',
                DateRead 3, DateRead 4, DateRead 5,
                ModelCall anthropic [UserText ''hello''],
                Console LOG ''Session terminated by MCP server (404)'',
                FetchDelete ''sess-1'' ''tok'',
                Console LOG ''Session terminated successfully'', Close 0],
       clients = 1\<rparr>,
      Response 404
        [(''error'', JStr ''Session terminated by server. Please connect again.''),
         (''requiresReconnect'', JBool True)])"
  by code_simp

section \<open>Several tool requests in one response\<close>

text \<open>The OpenAI and Ollama rounds call every requested tool in request order, append a
  tool result for each, and then call the model once more.\<close>

lemma openai_batch_followup:
  assumes "processQueryWithOpenAI E t c q = (t', c', Inr x)"
      and "openai_chat_completions_create E t (conversationHistory c @ [UserText q])
             (tools_arg c) = Inr (msg # rest)"
      and "oa_tool_calls msg = Some tcs" "tcs \<noteq> []"
  shows "\<exists>evs ms m4. map called_tool evs = map (\<lambda>tc. Some (oa_name tc)) tcs \<and>
      map tool_result_id ms = map (\<lambda>tc. Some (oa_id tc)) tcs \<and>
      map kind_of ms = replicate (length tcs) KToolResult \<and> kind_of m4 = KAssistant \<and>
      conversationHistory c' = conversationHistory c @
         [UserText q, OpenAIAssistant (oa_content msg) (Some tcs)] @ ms @ [m4] \<and>
      t' = t @ [ModelCall openai (conversationHistory c @ [UserText q])] @ evs @
         [ModelCall openai (conversationHistory c @
            [UserText q, OpenAIAssistant (oa_content msg) (Some tcs)] @ ms)]"
  using assms(1)
proof (cases rule: processQueryWithOpenAI_cases)
  case (plain msg' rest')
  with assms(2,3,4) show ?thesis by auto
next
  case (complete msg' rest' tcs' t2 c3 fm)
  with assms(2,3) have eq: "msg' = msg" "tcs' = tcs" by simp_all
  from openai_tool_calls_ok[OF complete(4)[unfolded eq]] obtain evs ms where
    r: "t2 = (t @ [ModelCall openai (conversationHistory c @ [UserText q])]) @ evs"
       "extends (push (push c (UserText q)) (OpenAIAssistant (oa_content msg) (Some tcs))) c3 ms"
       "map called_tool evs = map (\<lambda>tc. Some (oa_name tc)) tcs"
       "map tool_result_id ms = map (\<lambda>tc. Some (oa_id tc)) tcs"
       "map kind_of ms = replicate (length tcs) KToolResult" by blast
  show ?thesis
    using r complete(5,6)
    by (intro exI[of _ evs] exI[of _ ms] exI[of _ "OpenAIAssistant (oa_content fm) (oa_tool_calls fm)"])
       (simp add: extends_def push_def)
qed simp_all

lemma ollama_batch_followup:
  assumes "processQueryWithOllama E t c q = (t', c', Inr x)"
      and "ollama_chat E t (conversationHistory c @ [UserText q]) (tools_arg c) = Inr msg"
      and "ol_tool_calls msg = Some tcs" "tcs \<noteq> []"
  shows "\<exists>evs ms m4. map called_tool evs = map (\<lambda>tc. Some (ol_name tc)) tcs \<and>
      map tool_result_id ms = map (\<lambda>tc. Some (ol_tool_call_id tc)) tcs \<and>
      map kind_of ms = replicate (length tcs) KToolResult \<and> kind_of m4 = KAssistant \<and>
      conversationHistory c' = conversationHistory c @
         [UserText q, OllamaAssistant (ol_content msg) (Some tcs)] @ ms @ [m4] \<and>
      t' = t @ [ModelCall ollama (conversationHistory c @ [UserText q])] @ evs @
         [ModelCall ollama (conversationHistory c @
            [UserText q, OllamaAssistant (ol_content msg) (Some tcs)] @ ms)]"
  using assms(1)
proof (cases rule: processQueryWithOllama_cases)
  case (plain msg')
  with assms(2,3,4) show ?thesis by auto
next
  case (complete msg' tcs' t2 c3 fm)
  with assms(2,3) have eq: "msg' = msg" "tcs' = tcs" by simp_all
  from ollama_tool_calls_ok[OF complete(4)[unfolded eq]] obtain evs ms where
    r: "t2 = (t @ [ModelCall ollama (conversationHistory c @ [UserText q])]) @ evs"
       "extends (push (push c (UserText q)) (OllamaAssistant (ol_content msg) (Some tcs))) c3 ms"
       "map called_tool evs = map (\<lambda>tc. Some (ol_name tc)) tcs"
       "map tool_result_id ms = map (\<lambda>tc. Some (ol_tool_call_id tc)) tcs"
       "map kind_of ms = replicate (length tcs) KToolResult" by blast
  show ?thesis
    using r complete(5,6)
    by (intro exI[of _ evs] exI[of _ ms] exI[of _ "OllamaAssistant (ol_content fm) (ol_tool_calls fm)"])
       (simp add: extends_def push_def)
qed simp_all

text \<open>
  C1. The claim fails on the Anthropic path: with two \<open>tool_use\<close> blocks in the first
  response, \<open>processQueryWithAnthropic\<close> calls the model again after each tool result
  (two follow-up calls, the first of them with one result for two requests) and puts an
  assistant message between the two tool results.
\<close>

theorem anthropic_followup_per_tool_request:
  "initial_tool_requests env_two_tools [] (demo_client anthropic) ''find pets'' = Some 2 \<and>
   fst (processQuery env_two_tools [] (demo_client anthropic) ''find pets'') =
     [ModelCall anthropic [UserText ''find pets''],
      CallTool 0 ''search'' ''{q: cats}'' (Inr ''3 results''),
      ModelCall anthropic
        [UserText ''find pets'',
         AnthropicAssistant
           [ToolUseBlock ''toolu_1'' ''search'' ''{q: cats}'',
            ToolUseBlock ''toolu_2'' ''search'' ''{q: dogs}''],
         AnthropicToolResult ''toolu_1'' ''3 results''],
      CallTool 0 ''search'' ''{q: dogs}'' (Inr ''3 results''),
      ModelCall anthropic
        [UserText ''find pets'',
         AnthropicAssistant
           [ToolUseBlock ''toolu_1'' ''search'' ''{q: cats}'',
            ToolUseBlock ''toolu_2'' ''search'' ''{q: dogs}''],
         AnthropicToolResult ''toolu_1'' ''3 results'',
         AnthropicAssistant [TextBlock ''Found 3 results.''],
         AnthropicToolResult ''toolu_2'' ''3 results'']] \<and>
   length (filter is_ModelCall
     (fst (processQuery env_two_tools [] (demo_client anthropic) ''find pets''))) = 3 \<and>
   snd (snd (processQuery env_two_tools [] (demo_client anthropic) ''find pets'')) =
     Inr ''Found 3 results.Found 3 results.''"
  by code_simp

section \<open>A round with one tool request\<close>

lemma block_dispatches_ids: "map fst (block_dispatches bs) = block_ids bs"
  by (induction bs rule: block_ids.induct) auto

lemma tool_dispatches_ids: "map fst (tool_dispatches E m) = request_ids m"
  by (induction E m rule: tool_dispatches.induct) (auto simp add: block_dispatches_ids comp_def)

lemma anthropic_blocks_one_dispatch:
  assumes "block_dispatches bs = [(i, nm, Inr args)]"
      and "mcp_callTool E t (mcp c) nm args = Inr res"
      and "anthropic_messages_create E (t @ [CallTool (mcp c) nm args (Inr res)])
             (conversationHistory c @ [AnthropicToolResult i res]) (tools c) = Inr followup"
  shows "\<exists>x. anthropic_blocks E bs t c acc =
           (t @ [CallTool (mcp c) nm args (Inr res),
                 ModelCall anthropic (conversationHistory c @ [AnthropicToolResult i res])],
            c\<lparr>conversationHistory := conversationHistory c @
                 [AnthropicToolResult i res, AnthropicAssistant followup]\<rparr>,
            Inr x)"
  using assms(1)
proof (induction bs arbitrary: acc)
  case Nil
  then show ?case by simp
next
  case (Cons b bs)
  show ?case
  proof (cases b)
    case (TextBlock s)
    with Cons show ?thesis by simp
  next
    case (OtherBlock k)
    with Cons show ?thesis by simp
  next
    case (ToolUseBlock j n a)
    with Cons.prems have eq: "j = i" "n = nm" "a = args" and rest: "block_dispatches bs = []"
      by simp_all
    from rest have "block_ids bs = []" using block_dispatches_ids[of bs] by simp
    note tail = anthropic_blocks_no_tool[OF this]
    show ?thesis
      using assms(2,3) unfolding ToolUseBlock eq
      by (simp add: Let_def push_def tail)
  qed
qed

lemma one_dispatch_anthropic:
  assumes p: "provider c = anthropic" and ready: "sdk_ready c"
      and first: "model_reply E t c (conversationHistory c @ [UserText q]) = Inr m2"
      and one: "tool_dispatches E m2 = [(i, nm, Inr args)]"
      and tool: "mcp_callTool E (t @ [ModelCall (provider c) (conversationHistory c @ [UserText q])])
                   (mcp c) nm args = Inr res"
      and fu: "model_reply E
                 (t @ [ModelCall (provider c) (conversationHistory c @ [UserText q]),
                       CallTool (mcp c) nm args (Inr res)]) c
                 (conversationHistory c @ [UserText q, m2, tool_result_message c i res]) = Inr m4"
  shows "\<exists>x. processQuery E t c q =
           (t @ [ModelCall (provider c) (conversationHistory c @ [UserText q]),
                 CallTool (mcp c) nm args (Inr res),
                 ModelCall (provider c)
                   (conversationHistory c @ [UserText q, m2, tool_result_message c i res])],
            c\<lparr>conversationHistory := conversationHistory c @
                 [UserText q, m2, tool_result_message c i res, m4]\<rparr>,
            Inr x)"
proof -
  from ready p obtain u where sdk: "anthropic_sdk c = Some u" by (auto simp add: sdk_ready_def)
  from first p obtain content where
    c1: "anthropic_messages_create E t (conversationHistory c @ [UserText q]) (tools c) = Inr content"
    and m2: "m2 = AnthropicAssistant content"
    by (auto simp add: model_reply_def split: sum.splits)
  from one m2 have d: "block_dispatches content = [(i, nm, Inr args)]" by simp
  let ?c2 = "push (push c (UserText q)) (AnthropicAssistant content)"
  let ?t1 = "t @ [ModelCall anthropic (conversationHistory c @ [UserText q])]"
  from fu p m2 obtain followup where
    f: "anthropic_messages_create E (?t1 @ [CallTool (mcp ?c2) nm args (Inr res)])
          (conversationHistory ?c2 @ [AnthropicToolResult i res]) (tools ?c2) = Inr followup"
    and m4: "m4 = AnthropicAssistant followup"
    by (auto simp add: model_reply_def tool_result_message_def push_def split: sum.splits)
  have tl: "mcp_callTool E ?t1 (mcp ?c2) nm args = Inr res" using tool p by (simp add: push_def)
  from anthropic_blocks_one_dispatch[OF d tl f, of "[]"] obtain x where
    "anthropic_blocks E content ?t1 ?c2 [] =
       (?t1 @ [CallTool (mcp ?c2) nm args (Inr res),
               ModelCall anthropic (conversationHistory ?c2 @ [AnthropicToolResult i res])],
        ?c2\<lparr>conversationHistory := conversationHistory ?c2 @
             [AnthropicToolResult i res, AnthropicAssistant followup]\<rparr>, Inr x)"
    by blast
  then show ?thesis
    using p sdk c1 m2 m4
    by (intro exI[of _ x])
       (simp add: processQuery_def processQueryWithAnthropic_def Let_def push_def
          tool_result_message_def)
qed

lemma one_dispatch_openai:
  assumes p: "provider c = openai" and ready: "sdk_ready c"
      and first: "model_reply E t c (conversationHistory c @ [UserText q]) = Inr m2"
      and one: "tool_dispatches E m2 = [(i, nm, Inr args)]"
      and tool: "mcp_callTool E (t @ [ModelCall (provider c) (conversationHistory c @ [UserText q])])
                   (mcp c) nm args = Inr res"
      and fu: "model_reply E
                 (t @ [ModelCall (provider c) (conversationHistory c @ [UserText q]),
                       CallTool (mcp c) nm args (Inr res)]) c
                 (conversationHistory c @ [UserText q, m2, tool_result_message c i res]) = Inr m4"
  shows "\<exists>x. processQuery E t c q =
           (t @ [ModelCall (provider c) (conversationHistory c @ [UserText q]),
                 CallTool (mcp c) nm args (Inr res),
                 ModelCall (provider c)
                   (conversationHistory c @ [UserText q, m2, tool_result_message c i res])],
            c\<lparr>conversationHistory := conversationHistory c @
                 [UserText q, m2, tool_result_message c i res, m4]\<rparr>,
            Inr x)"
proof -
  from ready p obtain u where sdk: "openai_sdk c = Some u" by (auto simp add: sdk_ready_def)
  from first p obtain choices msg where
    c1: "openai_chat_completions_create E t (conversationHistory c @ [UserText q]) (tools_arg c) = Inr choices"
    and fc: "first_choice choices = Inr msg"
    and m2: "m2 = OpenAIAssistant (oa_content msg) (oa_tool_calls msg)"
    by (auto simp add: model_reply_def split: sum.splits)
  from one m2 obtain tc where tcs: "oa_tool_calls msg = Some [tc]"
    and tc: "oa_id tc = i" "oa_name tc = nm" "JSON_parse E (oa_arguments tc) = Inr args"
    by (cases "oa_tool_calls msg") auto
  let ?h1 = "conversationHistory c @ [UserText q]"
  let ?t1 = "t @ [ModelCall openai ?h1]"
  from fu p m2 obtain fchoices fm where
    f: "openai_chat_completions_create E (?t1 @ [CallTool (mcp c) nm args (Inr res)])
          (?h1 @ [m2, ToolMessage res i]) (tools_arg c) = Inr fchoices"
    and ffc: "first_choice fchoices = Inr fm"
    and m4: "m4 = OpenAIAssistant (oa_content fm) (oa_tool_calls fm)"
    by (auto simp add: model_reply_def tool_result_message_def split: sum.splits)
  have ta: "\<And>h. tools_arg (c\<lparr>conversationHistory := h\<rparr>) = tools_arg c"
    by (simp add: tools_arg_def)
  show ?thesis
    using p sdk c1 fc m2 tcs tc tool f ffc m4
    by (intro exI[of _ "or_empty (oa_content fm)"])
       (simp add: processQuery_def processQueryWithOpenAI_def Let_def push_def ta
          tool_result_message_def)
qed

lemma one_dispatch_ollama:
  assumes p: "provider c = ollama" and ready: "sdk_ready c"
      and first: "model_reply E t c (conversationHistory c @ [UserText q]) = Inr m2"
      and one: "tool_dispatches E m2 = [(i, nm, Inr args)]"
      and tool: "mcp_callTool E (t @ [ModelCall (provider c) (conversationHistory c @ [UserText q])])
                   (mcp c) nm args = Inr res"
      and fu: "model_reply E
                 (t @ [ModelCall (provider c) (conversationHistory c @ [UserText q]),
                       CallTool (mcp c) nm args (Inr res)]) c
                 (conversationHistory c @ [UserText q, m2, tool_result_message c i res]) = Inr m4"
  shows "\<exists>x. processQuery E t c q =
           (t @ [ModelCall (provider c) (conversationHistory c @ [UserText q]),
                 CallTool (mcp c) nm args (Inr res),
                 ModelCall (provider c)
                   (conversationHistory c @ [UserText q, m2, tool_result_message c i res])],
            c\<lparr>conversationHistory := conversationHistory c @
                 [UserText q, m2, tool_result_message c i res, m4]\<rparr>,
            Inr x)"
proof -
  from ready p obtain u where sdk: "ollama_sdk c = Some u" by (auto simp add: sdk_ready_def)
  from first p obtain msg where
    c1: "ollama_chat E t (conversationHistory c @ [UserText q]) (tools_arg c) = Inr msg"
    and m2: "m2 = OllamaAssistant (ol_content msg) (ol_tool_calls msg)"
    by (auto simp add: model_reply_def split: sum.splits)
  from one m2 obtain tc where tcs: "ol_tool_calls msg = Some [tc]"
    and tc: "ol_tool_call_id tc = i" "ol_name tc = nm" "ol_tool_args E tc = Inr args"
    by (cases "ol_tool_calls msg") auto
  let ?h1 = "conversationHistory c @ [UserText q]"
  let ?t1 = "t @ [ModelCall ollama ?h1]"
  from fu p m2 obtain fm where
    f: "ollama_chat E (?t1 @ [CallTool (mcp c) nm args (Inr res)])
          (?h1 @ [m2, ToolMessage res i]) (tools_arg c) = Inr fm"
    and m4: "m4 = OllamaAssistant (ol_content fm) (ol_tool_calls fm)"
    by (auto simp add: model_reply_def tool_result_message_def split: sum.splits)
  have ta: "\<And>h. tools_arg (c\<lparr>conversationHistory := h\<rparr>) = tools_arg c"
    by (simp add: tools_arg_def)
  show ?thesis
    using p sdk c1 m2 tcs tc tool f m4
    by (intro exI[of _ "ol_content fm"])
       (simp add: processQuery_def processQueryWithOllama_def Let_def push_def ta
          tool_result_message_def)
qed

lemma model_reply_kind: "model_reply E t c h = Inr m \<Longrightarrow> kind_of m = KAssistant"
  by (auto simp add: model_reply_def split: if_splits sum.splits)

text \<open>
  C2 (as amended). Take a chat round of a client whose provider member is initialised,
  in which the model's initial response contains exactly one tool request, the arguments
  of the request parse, the tool invocation returns, and the follow-up model call returns
  a message. Then the round returns a response, exactly four messages are appended to the
  history of the session (the user text, the assistant message with the request, the tool
  result with the correlation id of the request, the assistant message of the follow-up),
  and exactly three calls are made: the first model call, the tool call, and one
  follow-up model call that carries the first three of these messages. This holds for all
  three providers.
\<close>

theorem one_tool_request_round:
  assumes ready: "sdk_ready c"
      and first: "model_reply E t c (conversationHistory c @ [UserText q]) = Inr m2"
      and one: "tool_dispatches E m2 = [(i, nm, Inr args)]"
      and tool: "mcp_callTool E (t @ [ModelCall (provider c) (conversationHistory c @ [UserText q])])
                   (mcp c) nm args = Inr res"
      and fu: "model_reply E
                 (t @ [ModelCall (provider c) (conversationHistory c @ [UserText q]),
                       CallTool (mcp c) nm args (Inr res)]) c
                 (conversationHistory c @ [UserText q, m2, tool_result_message c i res]) = Inr m4"
  shows "(\<exists>x. processQuery E t c q =
           (t @ [ModelCall (provider c) (conversationHistory c @ [UserText q]),
                 CallTool (mcp c) nm args (Inr res),
                 ModelCall (provider c)
                   (conversationHistory c @ [UserText q, m2, tool_result_message c i res])],
            c\<lparr>conversationHistory := conversationHistory c @
                 [UserText q, m2, tool_result_message c i res, m4]\<rparr>,
            Inr x)) \<and>
         kind_of m2 = KAssistant \<and> request_ids m2 = [i] \<and> tool_requests m2 = 1 \<and>
         kind_of (tool_result_message c i res) = KToolResult \<and>
         tool_result_id (tool_result_message c i res) = Some i \<and>
         kind_of m4 = KAssistant"
proof -
  have run: "\<exists>x. processQuery E t c q =
           (t @ [ModelCall (provider c) (conversationHistory c @ [UserText q]),
                 CallTool (mcp c) nm args (Inr res),
                 ModelCall (provider c)
                   (conversationHistory c @ [UserText q, m2, tool_result_message c i res])],
            c\<lparr>conversationHistory := conversationHistory c @
                 [UserText q, m2, tool_result_message c i res, m4]\<rparr>,
            Inr x)"
  proof (cases "provider c")
    case anthropic
    from one_dispatch_anthropic[OF anthropic ready first one tool fu] show ?thesis .
  next
    case openai
    from one_dispatch_openai[OF openai ready first one tool fu] show ?thesis .
  next
    case ollama
    from one_dispatch_ollama[OF ollama ready first one tool fu] show ?thesis .
  qed
  have ids: "request_ids m2 = [i]" using tool_dispatches_ids[of E m2] one by simp
  have "kind_of m2 = KAssistant" "kind_of m4 = KAssistant"
    using first fu by (auto dest: model_reply_kind)
  moreover have "kind_of (tool_result_message c i res) = KToolResult"
    "tool_result_id (tool_result_message c i res) = Some i"
    by (simp_all add: tool_result_message_def)
  ultimately show ?thesis using run ids by (simp add: tool_requests_def)
qed

text \<open>
  The claim as stated fails for a round that does not run to its end: when the one tool
  invocation throws (an error without status 404), the round has appended two messages
  and made no follow-up call.
\<close>

theorem one_tool_request_tool_throws:
  "initial_tool_requests (env_ok\<lparr>mcp_callTool := (\<lambda>t n nm args. Inl (new_Error ''tool failed''))\<rparr>)
     [] (demo_client anthropic) ''find cats'' = Some 1 \<and>
   processQuery (env_ok\<lparr>mcp_callTool := (\<lambda>t n nm args. Inl (new_Error ''tool failed''))\<rparr>)
     [] (demo_client anthropic) ''find cats'' =
     ([ModelCall anthropic [UserText ''find cats''],
       CallTool 0 ''search'' ''{q: cats}'' (Inl (new_Error ''tool failed''))],
      (demo_client anthropic)\<lparr>conversationHistory :=
         [UserText ''find cats'',
          AnthropicAssistant [TextBlock ''Searching. '', ToolUseBlock ''toolu_1'' ''search'' ''{q: cats}'']]\<rparr>,
      Inl (new_Error ''tool failed'')) \<and>
   conversationHistory (demo_client anthropic) = []"
  by code_simp

theorem one_tool_request_witness:
  "sdk_ready (demo_client anthropic) \<and>
   model_reply env_ok [] (demo_client anthropic) (conversationHistory (demo_client anthropic) @ [UserText ''find cats'']) = Inr (AnthropicAssistant [TextBlock ''Searching. '', ToolUseBlock ''toolu_1'' ''search'' ''{q: cats}'']) \<and>
   tool_dispatches env_ok (AnthropicAssistant [TextBlock ''Searching. '', ToolUseBlock ''toolu_1'' ''search'' ''{q: cats}'']) = [(''toolu_1'', ''search'', Inr ''{q: cats}'')] \<and>
   mcp_callTool env_ok ([] @ [ModelCall (provider (demo_client anthropic)) (conversationHistory (demo_client anthropic) @ [UserText ''find cats''])]) (mcp (demo_client anthropic)) ''search'' ''{q: cats}'' = Inr ''3 results'' \<and>
   model_reply env_ok ([] @ [ModelCall (provider (demo_client anthropic)) (conversationHistory (demo_client anthropic) @ [UserText ''find cats'']), CallTool (mcp (demo_client anthropic)) ''search'' ''{q: cats}'' (Inr ''3 results'')]) (demo_client anthropic)
       (conversationHistory (demo_client anthropic) @ [UserText ''find cats'', AnthropicAssistant [TextBlock ''Searching. '', ToolUseBlock ''toolu_1'' ''search'' ''{q: cats}''],
          tool_result_message (demo_client anthropic) ''toolu_1'' ''3 results'']) = Inr (AnthropicAssistant [TextBlock ''Found 3 results.'']) \<and>
   (\<exists>x. processQuery env_ok [] (demo_client anthropic) ''find cats'' =
       ([] @ [ModelCall (provider (demo_client anthropic)) (conversationHistory (demo_client anthropic) @ [UserText ''find cats'']),
              CallTool (mcp (demo_client anthropic)) ''search'' ''{q: cats}'' (Inr ''3 results''),
              ModelCall (provider (demo_client anthropic))
                (conversationHistory (demo_client anthropic) @ [UserText ''find cats'', AnthropicAssistant [TextBlock ''Searching. '', ToolUseBlock ''toolu_1'' ''search'' ''{q: cats}''],
                   tool_result_message (demo_client anthropic) ''toolu_1'' ''3 results''])],
        (demo_client anthropic)\<lparr>conversationHistory := conversationHistory (demo_client anthropic) @
           [UserText ''find cats'', AnthropicAssistant [TextBlock ''Searching. '', ToolUseBlock ''toolu_1'' ''search'' ''{q: cats}''],
            tool_result_message (demo_client anthropic) ''toolu_1'' ''3 results'', AnthropicAssistant [TextBlock ''Found 3 results.'']]\<rparr>,
        Inr x)) \<and>
   sdk_ready (demo_client openai) \<and>
   model_reply env_ok [] (demo_client openai) (conversationHistory (demo_client openai) @ [UserText ''find cats'']) = Inr (OpenAIAssistant None (Some [OAToolCall ''call_1'' ''search'' ''{}''])) \<and>
   tool_dispatches env_ok (OpenAIAssistant None (Some [OAToolCall ''call_1'' ''search'' ''{}''])) = [(''call_1'', ''search'', Inr ''{}'')] \<and>
   mcp_callTool env_ok ([] @ [ModelCall (provider (demo_client openai)) (conversationHistory (demo_client openai) @ [UserText ''find cats''])]) (mcp (demo_client openai)) ''search'' ''{}'' = Inr ''3 results'' \<and>
   model_reply env_ok ([] @ [ModelCall (provider (demo_client openai)) (conversationHistory (demo_client openai) @ [UserText ''find cats'']), CallTool (mcp (demo_client openai)) ''search'' ''{}'' (Inr ''3 results'')]) (demo_client openai)
       (conversationHistory (demo_client openai) @ [UserText ''find cats'', OpenAIAssistant None (Some [OAToolCall ''call_1'' ''search'' ''{}'']),
          tool_result_message (demo_client openai) ''call_1'' ''3 results'']) = Inr (OpenAIAssistant (Some ''Found 3 results.'') None) \<and>
   (\<exists>x. processQuery env_ok [] (demo_client openai) ''find cats'' =
       ([] @ [ModelCall (provider (demo_client openai)) (conversationHistory (demo_client openai) @ [UserText ''find cats'']),
              CallTool (mcp (demo_client openai)) ''search'' ''{}'' (Inr ''3 results''),
              ModelCall (provider (demo_client openai))
                (conversationHistory (demo_client openai) @ [UserText ''find cats'', OpenAIAssistant None (Some [OAToolCall ''call_1'' ''search'' ''{}'']),
                   tool_result_message (demo_client openai) ''call_1'' ''3 results''])],
        (demo_client openai)\<lparr>conversationHistory := conversationHistory (demo_client openai) @
           [UserText ''find cats'', OpenAIAssistant None (Some [OAToolCall ''call_1'' ''search'' ''{}'']),
            tool_result_message (demo_client openai) ''call_1'' ''3 results'', OpenAIAssistant (Some ''Found 3 results.'') None]\<rparr>,
        Inr x)) \<and>
   sdk_ready (demo_client ollama) \<and>
   model_reply env_ok [] (demo_client ollama) (conversationHistory (demo_client ollama) @ [UserText ''find cats'']) = Inr (OllamaAssistant [] (Some [OLToolCall None ''search'' (ArgsObject ''{q: cats}'')])) \<and>
   tool_dispatches env_ok (OllamaAssistant [] (Some [OLToolCall None ''search'' (ArgsObject ''{q: cats}'')])) = [(''search'', ''search'', Inr ''{q: cats}'')] \<and>
   mcp_callTool env_ok ([] @ [ModelCall (provider (demo_client ollama)) (conversationHistory (demo_client ollama) @ [UserText ''find cats''])]) (mcp (demo_client ollama)) ''search'' ''{q: cats}'' = Inr ''3 results'' \<and>
   model_reply env_ok ([] @ [ModelCall (provider (demo_client ollama)) (conversationHistory (demo_client ollama) @ [UserText ''find cats'']), CallTool (mcp (demo_client ollama)) ''search'' ''{q: cats}'' (Inr ''3 results'')]) (demo_client ollama)
       (conversationHistory (demo_client ollama) @ [UserText ''find cats'', OllamaAssistant [] (Some [OLToolCall None ''search'' (ArgsObject ''{q: cats}'')]),
          tool_result_message (demo_client ollama) ''search'' ''3 results'']) = Inr (OllamaAssistant ''Found 3 results.'' None) \<and>
   (\<exists>x. processQuery env_ok [] (demo_client ollama) ''find cats'' =
       ([] @ [ModelCall (provider (demo_client ollama)) (conversationHistory (demo_client ollama) @ [UserText ''find cats'']),
              CallTool (mcp (demo_client ollama)) ''search'' ''{q: cats}'' (Inr ''3 results''),
              ModelCall (provider (demo_client ollama))
                (conversationHistory (demo_client ollama) @ [UserText ''find cats'', OllamaAssistant [] (Some [OLToolCall None ''search'' (ArgsObject ''{q: cats}'')]),
                   tool_result_message (demo_client ollama) ''search'' ''3 results''])],
        (demo_client ollama)\<lparr>conversationHistory := conversationHistory (demo_client ollama) @
           [UserText ''find cats'', OllamaAssistant [] (Some [OLToolCall None ''search'' (ArgsObject ''{q: cats}'')]),
            tool_result_message (demo_client ollama) ''search'' ''3 results'', OllamaAssistant ''Found 3 results.'' None]\<rparr>,
        Inr x))"
proof -
  have an0: "sdk_ready (demo_client anthropic)"
    by code_simp
  have an1: "model_reply env_ok [] (demo_client anthropic) (conversationHistory (demo_client anthropic) @ [UserText ''find cats'']) = Inr (AnthropicAssistant [TextBlock ''Searching. '', ToolUseBlock ''toolu_1'' ''search'' ''{q: cats}''])"
    by code_simp
  have an2: "tool_dispatches env_ok (AnthropicAssistant [TextBlock ''Searching. '', ToolUseBlock ''toolu_1'' ''search'' ''{q: cats}'']) = [(''toolu_1'', ''search'', Inr ''{q: cats}'')]"
    by code_simp
  have an3: "mcp_callTool env_ok ([] @ [ModelCall (provider (demo_client anthropic)) (conversationHistory (demo_client anthropic) @ [UserText ''find cats''])]) (mcp (demo_client anthropic)) ''search'' ''{q: cats}'' = Inr ''3 results''"
    by code_simp
  have an4: "model_reply env_ok ([] @ [ModelCall (provider (demo_client anthropic)) (conversationHistory (demo_client anthropic) @ [UserText ''find cats'']), CallTool (mcp (demo_client anthropic)) ''search'' ''{q: cats}'' (Inr ''3 results'')]) (demo_client anthropic)
       (conversationHistory (demo_client anthropic) @ [UserText ''find cats'', AnthropicAssistant [TextBlock ''Searching. '', ToolUseBlock ''toolu_1'' ''search'' ''{q: cats}''],
          tool_result_message (demo_client anthropic) ''toolu_1'' ''3 results'']) = Inr (AnthropicAssistant [TextBlock ''Found 3 results.''])"
    by code_simp
  from one_tool_request_round[OF an0 an1 an2 an3 an4]
  have anc: "(\<exists>x. processQuery env_ok [] (demo_client anthropic) ''find cats'' =
       ([] @ [ModelCall (provider (demo_client anthropic)) (conversationHistory (demo_client anthropic) @ [UserText ''find cats'']),
              CallTool (mcp (demo_client anthropic)) ''search'' ''{q: cats}'' (Inr ''3 results''),
              ModelCall (provider (demo_client anthropic))
                (conversationHistory (demo_client anthropic) @ [UserText ''find cats'', AnthropicAssistant [TextBlock ''Searching. '', ToolUseBlock ''toolu_1'' ''search'' ''{q: cats}''],
                   tool_result_message (demo_client anthropic) ''toolu_1'' ''3 results''])],
        (demo_client anthropic)\<lparr>conversationHistory := conversationHistory (demo_client anthropic) @
           [UserText ''find cats'', AnthropicAssistant [TextBlock ''Searching. '', ToolUseBlock ''toolu_1'' ''search'' ''{q: cats}''],
            tool_result_message (demo_client anthropic) ''toolu_1'' ''3 results'', AnthropicAssistant [TextBlock ''Found 3 results.'']]\<rparr>,
        Inr x))"
    by blast
  have op0: "sdk_ready (demo_client openai)"
    by code_simp
  have op1: "model_reply env_ok [] (demo_client openai) (conversationHistory (demo_client openai) @ [UserText ''find cats'']) = Inr (OpenAIAssistant None (Some [OAToolCall ''call_1'' ''search'' ''{}'']))"
    by code_simp
  have op2: "tool_dispatches env_ok (OpenAIAssistant None (Some [OAToolCall ''call_1'' ''search'' ''{}''])) = [(''call_1'', ''search'', Inr ''{}'')]"
    by code_simp
  have op3: "mcp_callTool env_ok ([] @ [ModelCall (provider (demo_client openai)) (conversationHistory (demo_client openai) @ [UserText ''find cats''])]) (mcp (demo_client openai)) ''search'' ''{}'' = Inr ''3 results''"
    by code_simp
  have op4: "model_reply env_ok ([] @ [ModelCall (provider (demo_client openai)) (conversationHistory (demo_client openai) @ [UserText ''find cats'']), CallTool (mcp (demo_client openai)) ''search'' ''{}'' (Inr ''3 results'')]) (demo_client openai)
       (conversationHistory (demo_client openai) @ [UserText ''find cats'', OpenAIAssistant None (Some [OAToolCall ''call_1'' ''search'' ''{}'']),
          tool_result_message (demo_client openai) ''call_1'' ''3 results'']) = Inr (OpenAIAssistant (Some ''Found 3 results.'') None)"
    by code_simp
  from one_tool_request_round[OF op0 op1 op2 op3 op4]
  have opc: "(\<exists>x. processQuery env_ok [] (demo_client openai) ''find cats'' =
       ([] @ [ModelCall (provider (demo_client openai)) (conversationHistory (demo_client openai) @ [UserText ''find cats'']),
              CallTool (mcp (demo_client openai)) ''search'' ''{}'' (Inr ''3 results''),
              ModelCall (provider (demo_client openai))
                (conversationHistory (demo_client openai) @ [UserText ''find cats'', OpenAIAssistant None (Some [OAToolCall ''call_1'' ''search'' ''{}'']),
                   tool_result_message (demo_client openai) ''call_1'' ''3 results''])],
        (demo_client openai)\<lparr>conversationHistory := conversationHistory (demo_client openai) @
           [UserText ''find cats'', OpenAIAssistant None (Some [OAToolCall ''call_1'' ''search'' ''{}'']),
            tool_result_message (demo_client openai) ''call_1'' ''3 results'', OpenAIAssistant (Some ''Found 3 results.'') None]\<rparr>,
        Inr x))"
    by blast
  have ol0: "sdk_ready (demo_client ollama)"
    by code_simp
  have ol1: "model_reply env_ok [] (demo_client ollama) (conversationHistory (demo_client ollama) @ [UserText ''find cats'']) = Inr (OllamaAssistant [] (Some [OLToolCall None ''search'' (ArgsObject ''{q: cats}'')]))"
    by code_simp
  have ol2: "tool_dispatches env_ok (OllamaAssistant [] (Some [OLToolCall None ''search'' (ArgsObject ''{q: cats}'')])) = [(''search'', ''search'', Inr ''{q: cats}'')]"
    by code_simp
  have ol3: "mcp_callTool env_ok ([] @ [ModelCall (provider (demo_client ollama)) (conversationHistory (demo_client ollama) @ [UserText ''find cats''])]) (mcp (demo_client ollama)) ''search'' ''{q: cats}'' = Inr ''3 results''"
    by code_simp
  have ol4: "model_reply env_ok ([] @ [ModelCall (provider (demo_client ollama)) (conversationHistory (demo_client ollama) @ [UserText ''find cats'']), CallTool (mcp (demo_client ollama)) ''search'' ''{q: cats}'' (Inr ''3 results'')]) (demo_client ollama)
       (conversationHistory (demo_client ollama) @ [UserText ''find cats'', OllamaAssistant [] (Some [OLToolCall None ''search'' (ArgsObject ''{q: cats}'')]),
          tool_result_message (demo_client ollama) ''search'' ''3 results'']) = Inr (OllamaAssistant ''Found 3 results.'' None)"
    by code_simp
  from one_tool_request_round[OF ol0 ol1 ol2 ol3 ol4]
  have olc: "(\<exists>x. processQuery env_ok [] (demo_client ollama) ''find cats'' =
       ([] @ [ModelCall (provider (demo_client ollama)) (conversationHistory (demo_client ollama) @ [UserText ''find cats'']),
              CallTool (mcp (demo_client ollama)) ''search'' ''{q: cats}'' (Inr ''3 results''),
              ModelCall (provider (demo_client ollama))
                (conversationHistory (demo_client ollama) @ [UserText ''find cats'', OllamaAssistant [] (Some [OLToolCall None ''search'' (ArgsObject ''{q: cats}'')]),
                   tool_result_message (demo_client ollama) ''search'' ''3 results''])],
        (demo_client ollama)\<lparr>conversationHistory := conversationHistory (demo_client ollama) @
           [UserText ''find cats'', OllamaAssistant [] (Some [OLToolCall None ''search'' (ArgsObject ''{q: cats}'')]),
            tool_result_message (demo_client ollama) ''search'' ''3 results'', OllamaAssistant ''Found 3 results.'' None]\<rparr>,
        Inr x))"
    by blast
  show ?thesis
    by (intro conjI) (fact an0 an1 an2 an3 an4 anc op0 op1 op2 op3 op4 opc ol0 ol1 ol2 ol3 ol4 olc)+
qed

section \<open>A tool invocation that reports 404\<close>

lemma getSession_keeps_unregistered:
  assumes "map_of (sessions s) i = None"
  shows "map_of (sessions (fst (getSession E s k))) i = None"
proof (cases "map_of (sessions s) k")
  case None
  then show ?thesis using assms by (simp add: getSession_miss)
next
  case (Some sd)
  with assms have "k \<noteq> i" by auto
  with Some assms show ?thesis by (simp add: getSession_def Let_def update_conv')
qed

lemma removeSession_keeps_unregistered:
  assumes "map_of (sessions s) i = None"
  shows "map_of (sessions (removeSession E s k)) i = None"
proof (cases "map_of (sessions s) k")
  case None
  then show ?thesis using assms by (simp add: removeSession_miss)
next
  case (Some sd)
  obtain t1 c1 r where "terminateSession E (trace s) (mcpClient sd) = (t1, c1, r)"
    by (cases "terminateSession E (trace s) (mcpClient sd)") auto
  with Some assms show ?thesis by (simp add: removeSession_def Let_def delete_conv')
qed

lemma chat_session_keeps_unregistered:
  assumes "map_of (sessions s) i = None"
  shows "map_of (sessions (fst (chat_session E s q k))) i = None"
proof (cases "map_of (sessions s) k")
  case None
  then show ?thesis using assms by (simp add: chat_session_def getSession_miss)
next
  case (Some sd)
  with assms have ki: "k \<noteq> i" by auto
  let ?d = "Date_now E (trace s)"
  let ?sd = "sd\<lparr>lastActivity := ?d\<rparr>"
  let ?s1 = "s\<lparr>trace := trace s @ [DateRead ?d], sessions := AList.update k ?sd (sessions s)\<rparr>"
  have g: "getSession E s k = (?s1, Some ?sd)" using Some by (simp add: getSession_def Let_def)
  obtain t2 c2 r where pq: "processQuery E (trace ?s1) (mcpClient ?sd) q = (t2, c2, r)"
    by (cases "processQuery E (trace ?s1) (mcpClient ?sd) q") auto
  let ?s2 = "?s1\<lparr>trace := t2, sessions := AList.update k (?sd\<lparr>mcpClient := c2\<rparr>) (sessions ?s1)\<rparr>"
  have s2: "map_of (sessions ?s2) i = None" using assms ki by (simp add: update_conv')
  show ?thesis
  proof (cases r)
    case (Inr x)
    with g pq s2 show ?thesis by (simp add: chat_session_def Let_def)
  next
    case (Inl e)
    show ?thesis
    proof (cases "is_404 e")
      case True
      have "map_of (sessions (removeSession E
          (?s2\<lparr>trace := trace ?s2 @ [Console LOG ''Session terminated by MCP server (404)'']\<rparr>) k)) i = None"
        by (rule removeSession_keeps_unregistered) (use s2 in simp)
      with g pq Inl True show ?thesis by (simp add: chat_session_def Let_def)
    next
      case False
      with g pq Inl s2 show ?thesis by (simp add: chat_session_def Let_def)
    qed
  qed
qed

lemma chatHandler_keeps_unregistered:
  assumes "map_of (sessions s) i = None"
  shows "map_of (sessions (fst (chatHandler E s query sid))) i = None"
  using assms chat_session_keeps_unregistered[OF assms]
  by (simp add: chatHandler_def split: option.splits)

lemma disconnectHandler_keeps_unregistered:
  assumes "map_of (sessions s) i = None"
  shows "map_of (sessions (fst (disconnectHandler E s sid))) i = None"
proof (cases sid)
  case None
  with assms show ?thesis by (simp add: disconnectHandler_def)
next
  case (Some k)
  show ?thesis
  proof (cases "k = []")
    case True
    with Some assms show ?thesis by (simp add: disconnectHandler_def)
  next
    case False
    obtain s1 r where g: "getSession E s k = (s1, r)" by (cases "getSession E s k") auto
    from getSession_keeps_unregistered[OF assms, of E k] g
    have s1: "map_of (sessions s1) i = None" by simp
    from removeSession_keeps_unregistered[OF s1]
    have "map_of (sessions (removeSession E s1 k)) i = None" .
    with Some False g s1 show ?thesis
      by (cases r) (simp_all add: disconnectHandler_def)
  qed
qed

lemma createSession_sessions:
  assumes "createSession E s token p = (s1, r)"
  shows "(case r of Inl e \<Rightarrow> sessions s1 = sessions s
          | Inr sid \<Rightarrow> \<exists>sd. sessions s1 = AList.update sid sd (sessions s))"
proof -
  obtain t1 c1 r1 where c: "connectToServer E (trace s) (new_MCPClient (clients s) token p) = (t1, c1, r1)"
    by (cases "connectToServer E (trace s) (new_MCPClient (clients s) token p)") auto
  show ?thesis
  proof (cases r1)
    case (Inl e)
    with assms c show ?thesis by (auto simp add: createSession_def Let_def)
  next
    case (Inr sid)
    with assms c show ?thesis by (auto simp add: createSession_def Let_def)
  qed
qed

lemma connectHandler_keeps_unregistered:
  assumes un: "map_of (sessions s) i = None"
      and no: "map_of (body (snd (connectHandler E s authHeader prov))) ''sessionId'' \<noteq> Some (JStr i)"
  shows "map_of (sessions (fst (connectHandler E s authHeader prov))) i = None"
proof (cases "authHeader = None \<or> the authHeader = [] \<or> take 7 (the authHeader) \<noteq> ''Bearer ''")
  case True
  with un show ?thesis by (auto simp add: connectHandler_def split: option.splits)
next
  case False
  then obtain h where h: "authHeader = Some h" "h \<noteq> []" "take 7 h = ''Bearer ''" by auto
  let ?p = "if prov = JStr ''openai'' then openai
            else if prov = JStr ''ollama'' then ollama else anthropic"
  obtain s1 r where cs: "createSession E s (drop 7 h) ?p = (s1, r)"
    by (cases "createSession E s (drop 7 h) ?p") auto
  show ?thesis
  proof (cases r)
    case (Inl e)
    with createSession_sessions[OF cs] have "sessions s1 = sessions s" by simp
    with un h cs Inl show ?thesis by (simp add: connectHandler_def Let_def)
  next
    case (Inr sid)
    with createSession_sessions[OF cs] obtain sd where
      s1: "sessions s1 = AList.update sid sd (sessions s)" by auto
    then have m: "map_of (sessions s1) sid = Some sd" by (simp add: update_conv')
    let ?d = "Date_now E (trace s1)"
    let ?sd = "sd\<lparr>lastActivity := ?d\<rparr>"
    let ?s2 = "s1\<lparr>trace := trace s1 @ [DateRead ?d], sessions := AList.update sid ?sd (sessions s1)\<rparr>"
    have g: "getSession E s1 sid = (?s2, Some ?sd)" using m by (simp add: getSession_def Let_def)
    from h cs Inr g have ch: "connectHandler E s authHeader prov =
       (?s2, Response 200
                          [(''sessionId'', JStr sid),
                           (''message'', JStr (''Session created and connected to MCP server using ''
                               @ provider_name ?p)),
                           (''provider'', JStr (provider_name ?p)),
                           (''tools'', tool_names (tools (mcpClient ?sd)))])"
      by (simp add: connectHandler_def Let_def)
    with no have "sid \<noteq> i" by auto
    with un s1 have "map_of (sessions ?s2) i = None" by (simp add: update_conv')
    with ch show ?thesis by simp
  qed
qed

lemma route_keeps_unregistered:
  assumes "map_of (sessions s) i = None" "\<not> connect_returns E s req i"
  shows "map_of (sessions (fst (route E s req))) i = None"
proof (cases req)
  case (ConnectRequest a p)
  with assms connectHandler_keeps_unregistered[of s i E a p] show ?thesis
    by (simp add: route_def connect_returns_def)
next
  case (ChatRequest q k)
  with chatHandler_keeps_unregistered[OF assms(1)] show ?thesis by (simp add: route_def)
next
  case (DisconnectRequest k)
  with disconnectHandler_keeps_unregistered[OF assms(1)] show ?thesis by (simp add: route_def)
qed

lemma serve_keeps_unregistered:
  assumes "map_of (sessions s) i = None" "\<not> registered_again E s reqs i"
  shows "map_of (sessions (serve E s reqs)) i = None"
  using assms
proof (induction reqs arbitrary: s)
  case Nil
  then show ?case by simp
next
  case (Cons req reqs)
  from Cons.prems have a: "\<not> connect_returns E s req i"
    "\<not> registered_again E (fst (route E s req)) reqs i" by simp_all
  from route_keeps_unregistered[OF Cons.prems(1) a(1)]
  have "map_of (sessions (fst (route E s req))) i = None" .
  from Cons.IH[OF this a(2)] show ?case by simp
qed

text \<open>
  C3 (as amended). Whenever a tool invocation during a chat call reports HTTP 404 (an
  error whose \<open>status\<close> or \<open>code\<close> is 404), the session is removed from the registry
  and the caller receives 404 with \<open>requiresReconnect: true\<close>; every later chat against
  that id, after any sequence of further connect, chat and disconnect requests in which
  no connect is answered with that id again, is answered 404 "Session not found or
  expired. Please connect again ...", a response that carries no \<open>requiresReconnect\<close>
  flag, and changes nothing.
\<close>

theorem tool_404_removes_session:
  assumes q: "q \<noteq> []" and i: "i \<noteq> []"
      and run: "chatHandler E s (Some q) (Some i) = (s', resp)"
      and t404: "\<exists>ev \<in> set (drop (length (trace s)) (trace s')).
                   \<exists>e. failed_tool_call ev = Some e \<and> is_404 e"
  shows "map_of (sessions s') i = None \<and>
     resp = Response 404
          [(''error'', JStr ''Session terminated by server. Please connect again.''),
           (''requiresReconnect'', JBool True)] \<and>
     (\<forall>reqs q2. q2 \<noteq> [] \<longrightarrow> \<not> registered_again E s' reqs i \<longrightarrow>
        chatHandler E (serve E s' reqs) (Some q2) (Some i) =
          (serve E s' reqs, Response 404 [(''error'',
             JStr ''Session not found or expired. Please connect again using /connect endpoint'')]))"
proof -
  from run q i have cs: "chat_session E s q i = (s', resp)" by (simp add: chatHandler_def)
  from t404 obtain ev e where ev: "ev \<in> set (drop (length (trace s)) (trace s'))"
    "failed_tool_call ev = Some e" "is_404 e" by blast
  let ?t1 = "trace s @ [DateRead (Date_now E (trace s))]"
  have removed: "map_of (sessions s') i = None \<and>
     resp = Response 404
          [(''error'', JStr ''Session terminated by server. Please connect again.''),
           (''requiresReconnect'', JBool True)]"
    using cs
  proof (cases rule: chat_session_cases)
    case missing
    with ev(1) show ?thesis by simp
  next
    case (answered sd t2 c2 x)
    from processQuery_shape[OF answered(2)] obtain evs where
      sh: "t2 = ?t1 @ evs" "\<forall>ev \<in> set evs. \<forall>e. failed_tool_call ev = Some e \<longrightarrow> failure (Inr x :: js_error + string) = Some e"
      unfolding round_shape_def by blast
    from ev(1) answered(3) sh(1) have "ev = DateRead (Date_now E (trace s)) \<or> ev \<in> set evs" by auto
    with ev(2) sh(2) show ?thesis by (auto simp add: failure_def)
  next
    case (removed sd t2 c2 e)
    then show ?thesis by simp
  next
    case (failed sd t2 c2 e0)
    from processQuery_shape[OF failed(2)] obtain evs where
      sh: "t2 = ?t1 @ evs" "\<forall>ev \<in> set evs. \<forall>e. failed_tool_call ev = Some e \<longrightarrow> failure (Inl e0 :: js_error + string) = Some e"
      unfolding round_shape_def by blast
    from ev(1) failed(4) sh(1) have "ev = DateRead (Date_now E (trace s)) \<or> ev \<in> set evs \<or>
       ev = Console ERROR ''Error processing query for session ''" by auto
    with ev(2) sh(2) have "e0 = e" by (auto simp add: failure_def)
    with ev(3) failed(3) show ?thesis by simp
  qed
  then have un: "map_of (sessions s') i = None" by simp
  have "chatHandler E (serve E s' reqs) (Some q2) (Some i) =
          (serve E s' reqs, Response 404 [(''error'',
             JStr ''Session not found or expired. Please connect again using /connect endpoint'')])"
    if "q2 \<noteq> []" "\<not> registered_again E s' reqs i" for reqs q2
    using that(1) i serve_keeps_unregistered[OF un that(2)] by (rule chat_unknown_session)
  with removed show ?thesis by blast
qed

text \<open>
  The claim as stated fails in its last part: after a tool invocation has reported 404
  and the session was removed, the next chat against the id is answered "Session not
  found or expired", and that response has no \<open>requiresReconnect\<close> field.
\<close>

theorem chat_after_404_has_no_reconnect_flag:
  "CallTool 0 ''search'' ''{q: cats}'' (Inl (JsError JUndefined (JNum 404) ''Session not found''))
     \<in> set (trace (fst (chatHandler env_tool_404 (demo_server anthropic) (Some ''hello'') (Some ''sess-1'')))) \<and>
   snd (chatHandler env_tool_404 (demo_server anthropic) (Some ''hello'') (Some ''sess-1'')) =
     Response 404
       [(''error'', JStr ''Session terminated by server. Please connect again.''),
        (''requiresReconnect'', JBool True)] \<and>
   snd (chatHandler env_tool_404
          (fst (chatHandler env_tool_404 (demo_server anthropic) (Some ''hello'') (Some ''sess-1'')))
          (Some ''again'') (Some ''sess-1'')) =
     Response 404 [(''error'',
        JStr ''Session not found or expired. Please connect again using /connect endpoint'')] \<and>
   map_of (body (snd (chatHandler env_tool_404
          (fst (chatHandler env_tool_404 (demo_server anthropic) (Some ''hello'') (Some ''sess-1'')))
          (Some ''again'') (Some ''sess-1'')))) ''requiresReconnect'' = None"
  by code_simp

theorem tool_404_witness:
  "''hello'' \<noteq> [] \<and> ''sess-1'' \<noteq> [] \<and>
   CallTool 0 ''search'' ''{q: cats}'' (Inl (JsError JUndefined (JNum 404) ''Session not found''))
     \<in> set (drop (length (trace (demo_server anthropic)))
          (trace (fst (chatHandler env_tool_404_by_token (demo_server anthropic) (Some ''hello'') (Some ''sess-1''))))) \<and>
   is_404 (JsError JUndefined (JNum 404) ''Session not found'') \<and>
   map_of (sessions (fst (chatHandler env_tool_404_by_token (demo_server anthropic) (Some ''hello'')
      (Some ''sess-1'')))) ''sess-1'' = None \<and>
   snd (chatHandler env_tool_404_by_token (demo_server anthropic) (Some ''hello'') (Some ''sess-1'')) =
     Response 404
       [(''error'', JStr ''Session terminated by server. Please connect again.''),
        (''requiresReconnect'', JBool True)] \<and>
   ''again'' \<noteq> [] \<and>
   connect_returns env_tool_404_by_token
     (fst (chatHandler env_tool_404_by_token (demo_server anthropic) (Some ''hello'') (Some ''sess-1'')))
     (ConnectRequest (Some ''Bearer 2'') (JStr ''openai'')) ''sess-2'' \<and>
   \<not> registered_again env_tool_404_by_token
     (fst (chatHandler env_tool_404_by_token (demo_server anthropic) (Some ''hello'') (Some ''sess-1'')))
     [ConnectRequest (Some ''Bearer 2'') (JStr ''openai''),
      ChatRequest (Some ''hi'') (Some ''sess-2''),
      DisconnectRequest (Some ''sess-1'')] ''sess-1'' \<and>
   chatHandler env_tool_404_by_token
     (serve env_tool_404_by_token
        (fst (chatHandler env_tool_404_by_token (demo_server anthropic) (Some ''hello'') (Some ''sess-1'')))
        [ConnectRequest (Some ''Bearer 2'') (JStr ''openai''),
         ChatRequest (Some ''hi'') (Some ''sess-2''),
         DisconnectRequest (Some ''sess-1'')])
     (Some ''again'') (Some ''sess-1'') =
     (serve env_tool_404_by_token
        (fst (chatHandler env_tool_404_by_token (demo_server anthropic) (Some ''hello'') (Some ''sess-1'')))
        [ConnectRequest (Some ''Bearer 2'') (JStr ''openai''),
         ChatRequest (Some ''hi'') (Some ''sess-2''),
         DisconnectRequest (Some ''sess-1'')],
      Response 404 [(''error'',
        JStr ''Session not found or expired. Please connect again using /connect endpoint'')])"
proof -
  let ?E = env_tool_404_by_token
  let ?r = "chatHandler ?E (demo_server anthropic) (Some ''hello'') (Some ''sess-1'')"
  let ?reqs = "[ConnectRequest (Some ''Bearer 2'') (JStr ''openai''),
      ChatRequest (Some ''hi'') (Some ''sess-2''),
      DisconnectRequest (Some ''sess-1'')]"
  have m: "CallTool 0 ''search'' ''{q: cats}'' (Inl (JsError JUndefined (JNum 404) ''Session not found''))
     \<in> set (drop (length (trace (demo_server anthropic))) (trace (fst ?r)))" by code_simp
  have f: "is_404 (JsError JUndefined (JNum 404) ''Session not found'')" by (simp add: is_404_def)
  have c: "connect_returns ?E (fst ?r) (ConnectRequest (Some ''Bearer 2'') (JStr ''openai'')) ''sess-2''"
    by code_simp
  have n: "\<not> registered_again ?E (fst ?r) ?reqs ''sess-1''" by code_simp
  have "\<exists>ev \<in> set (drop (length (trace (demo_server anthropic))) (trace (fst ?r))).
          \<exists>e. failed_tool_call ev = Some e \<and> is_404 e"
    using m f by (intro bexI[of _ "CallTool 0 ''search'' ''{q: cats}''
        (Inl (JsError JUndefined (JNum 404) ''Session not found''))"]) auto
  from tool_404_removes_session[of "''hello''" "''sess-1''" ?E "demo_server anthropic"
      "fst ?r" "snd ?r", OF _ _ _ this]
  have r: "map_of (sessions (fst ?r)) ''sess-1'' = None"
    "snd ?r = Response 404
       [(''error'', JStr ''Session terminated by server. Please connect again.''),
        (''requiresReconnect'', JBool True)]"
    and later: "\<And>reqs q2. q2 \<noteq> [] \<Longrightarrow> \<not> registered_again ?E (fst ?r) reqs ''sess-1'' \<Longrightarrow>
      chatHandler ?E (serve ?E (fst ?r) reqs) (Some q2) (Some ''sess-1'') =
     (serve ?E (fst ?r) reqs, Response 404 [(''error'',
        JStr ''Session not found or expired. Please connect again using /connect endpoint'')])"
    by simp_all
  from later[of "''again''" ?reqs, OF _ n]
  have "chatHandler ?E (serve ?E (fst ?r) ?reqs) (Some ''again'') (Some ''sess-1'') =
     (serve ?E (fst ?r) ?reqs, Response 404 [(''error'',
        JStr ''Session not found or expired. Please connect again using /connect endpoint'')])"
    by simp
  with m f c n r show ?thesis by simp
qed

end
